theory Spec2Isabelle
  imports Complex_Main "HOL-Library.Word" "HOL-Library.Monad_Syntax" "HOL-Library.Multiset"
    "HOL-Library.Product_Lexorder"
begin

section \<open>Common conventions\<close>

text \<open>
  The development embeds the point-cloud classification core of \<^verbatim>\<open>src/classifier.hpp\<close>
  (\<^verbatim>\<open>getTrainingData\<close>, \<^verbatim>\<open>classifyData\<close>) and the split search of
  \<^verbatim>\<open>src/vendor/ethz/random-forest/node-gini.hpp\<close>.

  A C++ vector is a list. An access outside the vector is undefined behaviour in C++; here it
  is the value \<open>None\<close>, so every function that indexes a vector returns an \<open>option\<close>.
  A \<^verbatim>\<open>for\<close> loop over an index range or over a container is \<open>for_each\<close> over the list of
  the values the loop variable takes, threading the variables the loop body updates.
\<close>

type_synonym u8 = "8 word"

definition vget :: "'a list \<Rightarrow> nat \<Rightarrow> 'a option" where
  "vget xs i = (if i < length xs then Some (xs ! i) else None)"

definition vset :: "'a list \<Rightarrow> nat \<Rightarrow> 'a \<Rightarrow> 'a list option" where
  "vset xs i v = (if i < length xs then Some (xs[i := v]) else None)"

fun for_each :: "'a list \<Rightarrow> ('a \<Rightarrow> 's \<Rightarrow> 's option) \<Rightarrow> 's \<Rightarrow> 's option" where
  "for_each [] body s = Some s"
| "for_each (x # xs) body s = (case body x s of None \<Rightarrow> None | Some s' \<Rightarrow> for_each xs body s')"

text \<open>\<^verbatim>\<open>std::vector::resize(n)\<close>: truncate, or pad with value-initialised elements.\<close>

definition resize :: "'a::zero list \<Rightarrow> nat \<Rightarrow> 'a list" where
  "resize xs n = take n xs @ replicate (n - length xs) 0"

section \<open>The point set\<close>

text \<open>
  \<^verbatim>\<open>PointSet\<close> is declared in \<^verbatim>\<open>point_io.hpp\<close>, which is not among the sources. Modelled
  from the spec: a point set has \<open>count\<close> points, a label array of bytes that is empty when
  the set has no labels, an RGB array, the map \<open>pointMap\<close> from a surface point to its
  representative in the working set \<open>base\<close>, and an estimated \<open>spacing()\<close>. Of \<open>base\<close> only its
  point count and its label array are used; \<open>base\<close> is a set of its own, so its label array
  is not the label array of the surface. Positions, the bounding box and the kd-tree enter
  the functions below as the results of the queries made on them.
\<close>

record pointSet =
  pcount :: nat
  labels :: "u8 list"
  colors :: "(u8 \<times> u8 \<times> u8) list"
  pointMap :: "nat list"
  spacing :: real
  base_count :: nat
  base_labels :: "u8 list"

text \<open>Modelled from the spec: \<^verbatim>\<open>hasLabels()\<close> holds when the label array is not empty.\<close>

definition hasLabels :: "pointSet \<Rightarrow> bool" where
  "hasLabels ps = (labels ps \<noteq> [])"

section \<open>getTrainingData\<close>

text \<open>
  The calls \<^verbatim>\<open>getTrainingData\<close> makes to its collaborators are recorded in a trace:
  \<open>Scales r\<close> for \<^verbatim>\<open>computeScales(numScales, pointSet, *startResolution, radius)\<close> with
  \<open>*startResolution = r\<close>, \<open>Init nf nl\<close> for \<^verbatim>\<open>init(features.size(), labels.size())\<close> and
  \<open>Store fs idx g\<close> for \<^verbatim>\<open>storeFeatures(features, idx, g)\<close>.
\<close>

datatype 'f event = Scales real | Init nat nat | Store "'f list" nat nat

text \<open>\<^verbatim>\<open>int\<close> to \<^verbatim>\<open>size_t\<close>, as \<^verbatim>\<open>std::min<size_t>(samplesPerLabel, maxSamples)\<close> converts.\<close>

definition size_t_of_int :: "int \<Rightarrow> nat" where
  "size_t_of_int m = nat (m mod 2 ^ 64)"

definition SIZE_MAX :: nat where
  "SIZE_MAX = 2 ^ 64 - 1"

text \<open>
  Lines 32-42: the table \<^verbatim>\<open>std::array<bool, 255> trainClass\<close>. \<^verbatim>\<open>getAsprs2TrainCodes\<close> is
  not among the sources. Modelled from the spec: a table of 256 bytes indexed by the ASPRS
  code, here a function on bytes; an ASPRS class outside \<open>0..255\<close> reads outside it.
\<close>

definition mkTrainClass :: "(u8 \<Rightarrow> u8) \<Rightarrow> int list \<Rightarrow> bool list option" where
  "mkTrainClass asprsToTrain asprsClasses =
     for_each asprsClasses
       (\<lambda>c trainClass.
          if 0 \<le> c \<and> c < 256 then vset trainClass (unat (asprsToTrain (word_of_int c))) True
          else None)
       (replicate 255 False)"

text \<open>
  Lines 67-79, one iteration: the state is \<open>(count, sampled, idxes)\<close>. \<open>UNASSIGNED\<close> is the
  constant \<^verbatim>\<open>LABEL_UNASSIGNED\<close> of \<^verbatim>\<open>constants.hpp\<close>, a parameter here.
\<close>

definition collect_step ::
  "nat \<Rightarrow> bool \<Rightarrow> bool list \<Rightarrow> pointSet \<Rightarrow> nat
    \<Rightarrow> nat list \<times> bool list \<times> (nat \<times> nat) list
    \<Rightarrow> (nat list \<times> bool list \<times> (nat \<times> nat) list) option" where
  "collect_step UNASSIGNED trainSubset trainClass ps i st =
     (case st of (cnt, sampled, idxes) \<Rightarrow>
        do {
          l \<leftarrow> vget (labels ps) i;
          let g = unat l;
          if g \<noteq> UNASSIGNED then
            do {
              rejected \<leftarrow> (if trainSubset then map_option Not (vget trainClass g) else Some False);
              if rejected then Some st
              else do {
                idx \<leftarrow> vget (pointMap ps) i;
                seen \<leftarrow> vget sampled idx;
                if \<not> seen then
                  do {
                    c \<leftarrow> vget cnt g;
                    cnt' \<leftarrow> vset cnt g (c + 1);
                    sampled' \<leftarrow> vset sampled idx True;
                    Some (cnt', sampled', idxes @ [(idx, g)])
                  }
                else Some st
              }
            }
          else Some st
        })"

definition collect ::
  "nat \<Rightarrow> nat \<Rightarrow> bool \<Rightarrow> bool list \<Rightarrow> pointSet
    \<Rightarrow> (nat list \<times> bool list \<times> (nat \<times> nat) list) option" where
  "collect L UNASSIGNED trainSubset trainClass ps =
     for_each [0..<pcount ps] (collect_step UNASSIGNED trainSubset trainClass ps)
       (replicate L 0, replicate (pcount ps) False, [])"

text \<open>Lines 81-85. \<open>cnt\<close> is \<^verbatim>\<open>count\<close>, a vector of \<open>L = labels.size()\<close> counters.\<close>

definition samplesPerLabel :: "nat list \<Rightarrow> nat \<Rightarrow> int \<Rightarrow> nat" where
  "samplesPerLabel cnt L maxSamples =
     min (fold (\<lambda>i spl. if cnt ! i > 0 then min (cnt ! i) spl else spl) [0..<L] SIZE_MAX)
         (size_t_of_int maxSamples)"

text \<open>Lines 94-101, one iteration: the state is \<open>(added, trace)\<close>.\<close>

definition store_step ::
  "'f list \<Rightarrow> nat \<Rightarrow> nat \<times> nat \<Rightarrow> nat list \<times> 'f event list
    \<Rightarrow> (nat list \<times> 'f event list) option" where
  "store_step features spl p st =
     (case p of (idx, g) \<Rightarrow> case st of (added, tr) \<Rightarrow>
        do {
          a \<leftarrow> vget added g;
          if a < spl then
            do {
              added' \<leftarrow> vset added g (a + 1);
              Some (added', tr @ [Store features idx g])
            }
          else Some st
        })"

text \<open>
  Lines 63-101 for one file. \<^verbatim>\<open>std::shuffle\<close> with a freshly seeded generator is the
  parameter \<open>shuffle\<close>: the reordering this run of the generator makes.
\<close>

definition sampleFile ::
  "((nat \<times> nat) list \<Rightarrow> (nat \<times> nat) list) \<Rightarrow> nat \<Rightarrow> nat \<Rightarrow> bool \<Rightarrow> bool list \<Rightarrow> int
    \<Rightarrow> 'f list \<Rightarrow> pointSet \<Rightarrow> 'f event list \<Rightarrow> 'f event list option" where
  "sampleFile shuffle L UNASSIGNED trainSubset trainClass maxSamples features ps tr =
     do {
       (cnt, sampled, idxes) \<leftarrow> collect L UNASSIGNED trainSubset trainClass ps;
       let spl = samplesPerLabel cnt L maxSamples;
       (added, tr') \<leftarrow> for_each (shuffle idxes) (store_step features spl) (replicate L 0, tr);
       Some tr'
     }"

text \<open>
  Lines 44-110: the loop over the files, \<open>i\<close> the loop index and \<open>files\<close> what
  \<^verbatim>\<open>readPointSet\<close> returns for \<open>filenames[i]\<close>, \<open>filenames[i + 1]\<close>, ... The state is
  \<open>(*startResolution, trace)\<close>. \<open>featuresOf\<close> is \<^verbatim>\<open>getFeatures(computeScales(...))\<close>, and
  \<open>shuffle i\<close> the reordering made for file \<open>i\<close>.
\<close>

fun file_loop ::
  "(nat \<Rightarrow> (nat \<times> nat) list \<Rightarrow> (nat \<times> nat) list) \<Rightarrow> (nat \<Rightarrow> pointSet \<Rightarrow> real \<Rightarrow> real \<Rightarrow> 'f list)
    \<Rightarrow> nat \<Rightarrow> nat \<Rightarrow> bool \<Rightarrow> bool list \<Rightarrow> nat \<Rightarrow> real \<Rightarrow> int
    \<Rightarrow> nat \<Rightarrow> pointSet list \<Rightarrow> real \<times> 'f event list \<Rightarrow> (real \<times> 'f event list) option" where
  "file_loop shuffle featuresOf L UNASSIGNED trainSubset trainClass numScales radius maxSamples
     i [] st = Some st"
| "file_loop shuffle featuresOf L UNASSIGNED trainSubset trainClass numScales radius maxSamples
     i (ps # rest) st =
     (case st of (startResolution, tr) \<Rightarrow>
        if \<not> hasLabels ps then
          file_loop shuffle featuresOf L UNASSIGNED trainSubset trainClass numScales radius
            maxSamples (i + 1) rest st
        else
          let startResolution' = (if startResolution = - 1 then spacing ps else startResolution);
              features = featuresOf numScales ps startResolution' radius;
              tr1 = tr @ [Scales startResolution'];
              tr2 = (if i = 0 then tr1 @ [Init (length features) L] else tr1)
          in do {
            tr3 \<leftarrow> sampleFile (shuffle i) L UNASSIGNED trainSubset trainClass maxSamples
                     features ps tr2;
            file_loop shuffle featuresOf L UNASSIGNED trainSubset trainClass numScales radius
              maxSamples (i + 1) rest (startResolution', tr3)
          })"

text \<open>
  \<^verbatim>\<open>getTrainingData\<close>: \<open>L\<close> is \<^verbatim>\<open>getTrainingLabels().size()\<close>; the result is the final
  \<open>*startResolution\<close> and the trace.
\<close>

definition getTrainingData ::
  "(nat \<Rightarrow> (nat \<times> nat) list \<Rightarrow> (nat \<times> nat) list) \<Rightarrow> (nat \<Rightarrow> pointSet \<Rightarrow> real \<Rightarrow> real \<Rightarrow> 'f list)
    \<Rightarrow> nat \<Rightarrow> nat \<Rightarrow> (u8 \<Rightarrow> u8)
    \<Rightarrow> pointSet list \<Rightarrow> real \<Rightarrow> nat \<Rightarrow> real \<Rightarrow> int \<Rightarrow> int list
    \<Rightarrow> (real \<times> 'f event list) option" where
  "getTrainingData shuffle featuresOf L UNASSIGNED asprsToTrain
     files startResolution numScales radius maxSamples asprsClasses =
     (let trainSubset = (length asprsClasses > 0) in
      do {
        trainClass \<leftarrow> (if trainSubset then mkTrainClass asprsToTrain asprsClasses
                       else Some (replicate 255 False));
        file_loop shuffle featuresOf L UNASSIGNED trainSubset trainClass numScales radius
          maxSamples 0 files (startResolution, [])
      })"

section \<open>classifyData\<close>

text \<open>
  \<^verbatim>\<open>Label\<close> is declared in \<^verbatim>\<open>labels.hpp\<close>, which is not among the sources. Modelled from
  the spec: a label has an ASPRS code, one byte, and a colour. The position of a label in the
  label set is its training code.
\<close>

record label =
  asprs_code :: u8
  color :: "u8 \<times> u8 \<times> u8"

text \<open>
  The enumeration \<^verbatim>\<open>Regularization\<close>. Its first value, \<^verbatim>\<open>None\<close>, is \<open>NoRegularization\<close> here.
  The three values are all an enumeration has, so the final \<^verbatim>\<open>else throw\<close> of the source has
  no case.
\<close>

datatype Regularization = NoRegularization | LocalSmooth | GraphCut

text \<open>
  Floating-point numbers. A value of the template type \<^verbatim>\<open>T\<close> of probabilities, a feature
  value and a \<^verbatim>\<open>double\<close> are real numbers here. A value of type \<^verbatim>\<open>float\<close> is an \<open>fvalue\<close>: a
  finite number, an infinity or no number. The conversion to \<^verbatim>\<open>float\<close> (from \<^verbatim>\<open>T\<close>, from
  \<^verbatim>\<open>double\<close>) is a parameter \<open>to_float\<close> of the functions that narrow; so are \<open>dbl\<close> and
  \<open>rnd\<close>, which round the exact result of one operation in \<^verbatim>\<open>double\<close> and in \<^verbatim>\<open>T\<close>, and
  \<open>flog\<close>, the value of \<^verbatim>\<open>std::log\<close> on a positive finite \<^verbatim>\<open>float\<close>. Where \<^verbatim>\<open>T\<close> is
  \<^verbatim>\<open>float\<close>, \<open>to_float\<close> is \<open>Finite\<close>. The None path only copies and compares values of
  \<^verbatim>\<open>T\<close>.
\<close>

datatype fvalue = Finite real | PlusInfinity | MinusInfinity | NotANumber

text \<open>The comparison \<^verbatim>\<open><\<close> of two \<^verbatim>\<open>float\<close> values (IEEE 754).\<close>

fun float_less :: "fvalue \<Rightarrow> fvalue \<Rightarrow> bool" where
  "float_less (Finite x) (Finite y) = (x < y)"
| "float_less (Finite x) PlusInfinity = True"
| "float_less MinusInfinity (Finite y) = True"
| "float_less MinusInfinity PlusInfinity = True"
| "float_less a b = False"

text \<open>
  \<^verbatim>\<open>-std::log(value)\<close> on a \<^verbatim>\<open>float\<close>: the logarithm of zero is \<open>-\<infinity>\<close>, that of a negative
  number or of \<open>-\<infinity>\<close> is no number (IEEE 754, as the C++ library follows it).
\<close>

fun neg_log :: "(real \<Rightarrow> real) \<Rightarrow> fvalue \<Rightarrow> fvalue" where
  "neg_log flog (Finite v) =
     (if v = 0 then PlusInfinity else if v < 0 then NotANumber else Finite (- flog v))"
| "neg_log flog PlusInfinity = MinusInfinity"
| "neg_log flog MinusInfinity = NotANumber"
| "neg_log flog NotANumber = NotANumber"

text \<open>
  Lines 150-158 (and 209-217, 329-341): the search for the highest probability, one
  iteration. The state is \<open>(bestClass, bestClassVal)\<close>; \<open>probs\<close> is what the evaluator wrote.
\<close>

definition best_step :: "'p::linorder list \<Rightarrow> nat \<Rightarrow> nat \<times> 'p \<Rightarrow> (nat \<times> 'p) option" where
  "best_step probs j st =
     (case st of (bestClass, bestClassVal) \<Rightarrow>
        do {
          p \<leftarrow> vget probs j;
          if p > bestClassVal then Some (j, p) else Some st
        })"

definition findBest :: "nat \<Rightarrow> 'p::{linorder,zero} list \<Rightarrow> (nat \<times> 'p) option" where
  "findBest L probs = for_each [0..<L] (best_step probs) (0, 0)"

text \<open>
  Lines 142-161, one iteration of the None path: \<open>bl\<close> is \<^verbatim>\<open>pointSet.base->labels\<close>, \<open>features\<close>
  the accessors \<^verbatim>\<open>features[f]->getValue\<close>, \<open>L\<close> is \<^verbatim>\<open>labels.size()\<close>. The class index is stored
  into a byte.
\<close>

definition infer_none_step ::
  "(real list \<Rightarrow> real list) \<Rightarrow> (nat \<Rightarrow> real) list \<Rightarrow> nat \<Rightarrow> nat \<Rightarrow> u8 list \<Rightarrow> u8 list option" where
  "infer_none_step evaluateFunc features L i bl =
     (let ft = map (\<lambda>f. f i) features;
          probs = evaluateFunc ft
      in do {
        (bestClass, bestClassVal) \<leftarrow> findBest L probs;
        vset bl i (of_nat bestClass)
      })"

definition infer_none ::
  "(real list \<Rightarrow> real list) \<Rightarrow> (nat \<Rightarrow> real) list \<Rightarrow> nat \<Rightarrow> nat \<Rightarrow> u8 list \<Rightarrow> u8 list option" where
  "infer_none evaluateFunc features L n bl =
     for_each [0..<n] (infer_none_step evaluateFunc features L) bl"

text \<open>
  Lines 166-222, the Local-Smooth path. \<open>vals\<close> holds for each point the \<open>L\<close> probabilities of
  the first pass (\<^verbatim>\<open>values[j][i]\<close> is \<open>vals ! i ! j\<close>); \<open>radiusSearch i\<close> is the list of the
  matches the kd-tree returns for point \<open>i\<close> within \<^verbatim>\<open>regRadius\<close>; \<open>rnd\<close> rounds the exact
  result of one operation in \<^verbatim>\<open>T\<close>.
\<close>

definition smooth_values ::
  "(real list \<Rightarrow> real list) \<Rightarrow> (nat \<Rightarrow> real) list \<Rightarrow> nat \<Rightarrow> nat \<Rightarrow> real list list option" where
  "smooth_values evaluateFunc features L n =
     for_each [0..<n]
       (\<lambda>i vals.
          let probs = evaluateFunc (map (\<lambda>f. f i) features)
          in if L \<le> length probs then Some (vals @ [take L probs]) else None)
       []"

definition smooth_step ::
  "(real \<Rightarrow> real) \<Rightarrow> (nat \<Rightarrow> nat list) \<Rightarrow> nat \<Rightarrow> real list list \<Rightarrow> nat \<Rightarrow> u8 list
    \<Rightarrow> u8 list option" where
  "smooth_step rnd radiusSearch L vals i bl =
     (let radiusMatches = radiusSearch i;
          numMatches = length radiusMatches
      in do {
        acc \<leftarrow> for_each radiusMatches
                  (\<lambda>m mean. do { v \<leftarrow> vget vals m; Some (map2 (\<lambda>x y. rnd (x + y)) mean v) })
                  (replicate L 0);
        (bestClass, bestClassVal) \<leftarrow> findBest L (map (\<lambda>x. rnd (x / rnd (real numMatches))) acc);
        vset bl i (of_nat bestClass)
      })"

definition infer_smooth ::
  "(real \<Rightarrow> real) \<Rightarrow> (nat \<Rightarrow> nat list) \<Rightarrow> (real list \<Rightarrow> real list) \<Rightarrow> (nat \<Rightarrow> real) list
    \<Rightarrow> nat \<Rightarrow> nat \<Rightarrow> u8 list \<Rightarrow> u8 list option" where
  "infer_smooth rnd radiusSearch evaluateFunc features L n bl =
     do {
       vals \<leftarrow> smooth_values evaluateFunc features L n;
       for_each [0..<n] (smooth_step rnd radiusSearch L vals) bl
     }"

subsection \<open>The Graph-Cut path\<close>

definition strength :: real where
  "strength = 2 / 10"

definition neighbors :: nat where
  "neighbors = 12"

text \<open>
  Lines 264-281. The tiling of lines 231-258 is floating-point geometry; it enters as the
  number \<open>nb\<close> of tiles and the predicate \<open>contains j i\<close> for
  \<^verbatim>\<open>bboxes[j].contains(pointSet.base->points[i])\<close>. The state of the loop is
  \<open>(indices, inputToIndices)\<close>.
\<close>

definition firstTile :: "nat \<Rightarrow> (nat \<Rightarrow> nat \<Rightarrow> bool) \<Rightarrow> nat \<Rightarrow> nat" where
  "firstTile nb contains i = (case find (\<lambda>j. contains j i) [0..<nb] of None \<Rightarrow> 0 | Some j \<Rightarrow> j)"

definition assign_step ::
  "nat \<Rightarrow> (nat \<Rightarrow> nat \<Rightarrow> bool) \<Rightarrow> nat \<Rightarrow> nat list list \<times> (nat \<times> nat) list
    \<Rightarrow> (nat list list \<times> (nat \<times> nat) list) option" where
  "assign_step nb contains i st =
     (case st of (indices, inputToIndices) \<Rightarrow>
        let idx = firstTile nb contains i
        in do {
          inputToIndices' \<leftarrow> vset inputToIndices i (i, idx);
          tile \<leftarrow> vget indices idx;
          indices' \<leftarrow> vset indices idx (tile @ [i]);
          Some (indices', inputToIndices')
        })"

definition assignTiles ::
  "nat \<Rightarrow> (nat \<Rightarrow> nat \<Rightarrow> bool) \<Rightarrow> nat \<Rightarrow> (nat list list \<times> (nat \<times> nat) list) option" where
  "assignTiles nb contains n =
     for_each [0..<n] (assign_step nb contains) (replicate nb [], replicate n (0, 0))"

text \<open>
  Lines 308-319, one neighbour of tile point \<open>j\<close> of tile \<open>sub\<close>: the state is
  \<open>(edges, edgeWeights)\<close>.
\<close>

definition edge_step ::
  "nat \<Rightarrow> nat \<Rightarrow> (nat \<times> nat) list \<Rightarrow> nat \<Rightarrow> (nat \<times> nat) list \<times> real list
    \<Rightarrow> ((nat \<times> nat) list \<times> real list) option" where
  "edge_step sub j inputToIndices neighbor st =
     (case st of (edges, edgeWeights) \<Rightarrow>
        do {
          p \<leftarrow> vget inputToIndices neighbor;
          if sub = fst p \<and> j \<noteq> snd p then
            Some (edges @ [(j, snd p)], edgeWeights @ [strength])
          else Some st
        })"

text \<open>
  Lines 331-341, one class \<open>k\<close> of tile point \<open>j\<close>: the state is
  \<open>(probabilityMatrix, nbClassBest, valClassBest)\<close>. \<^verbatim>\<open>float value = values[k]\<close> narrows the
  probability; the cost and the comparison are on the narrowed value.
\<close>

definition unary_step ::
  "(real \<Rightarrow> fvalue) \<Rightarrow> (real \<Rightarrow> real) \<Rightarrow> real list \<Rightarrow> nat \<Rightarrow> nat
    \<Rightarrow> fvalue list list \<times> nat \<times> fvalue
    \<Rightarrow> (fvalue list list \<times> nat \<times> fvalue) option" where
  "unary_step to_float flog values j k st =
     (case st of (probabilityMatrix, nbClassBest, valClassBest) \<Rightarrow>
        do {
          v \<leftarrow> vget values k;
          let value = to_float v;
          row \<leftarrow> vget probabilityMatrix k;
          row' \<leftarrow> vset row j (neg_log flog value);
          probabilityMatrix' \<leftarrow> vset probabilityMatrix k row';
          if float_less valClassBest value then Some (probabilityMatrix', k, value)
          else Some (probabilityMatrix', nbClassBest, valClassBest)
        })"

text \<open>
  Lines 299-343, one tile point \<open>j\<close>: the state is
  \<open>(edges, edgeWeights, probabilityMatrix, assignedLabel)\<close>. \<open>knnSearch s\<close> is the list of the
  indices the kd-tree returns for point \<open>s\<close>, at most \<open>neighbors\<close> of them.
\<close>

definition tile_point_step ::
  "(real \<Rightarrow> fvalue) \<Rightarrow> (real \<Rightarrow> real)
    \<Rightarrow> (nat \<Rightarrow> nat list) \<Rightarrow> (real list \<Rightarrow> real list) \<Rightarrow> (nat \<Rightarrow> real) list \<Rightarrow> nat
    \<Rightarrow> nat \<Rightarrow> nat list \<Rightarrow> (nat \<times> nat) list \<Rightarrow> nat
    \<Rightarrow> (nat \<times> nat) list \<times> real list \<times> fvalue list list \<times> nat list
    \<Rightarrow> ((nat \<times> nat) list \<times> real list \<times> fvalue list list \<times> nat list) option" where
  "tile_point_step to_float flog knnSearch evaluateFunc features L sub tile inputToIndices j st =
     (case st of (edges, edgeWeights, probabilityMatrix, assignedLabel) \<Rightarrow>
        do {
          s \<leftarrow> vget tile j;
          (edges', edgeWeights') \<leftarrow>
            for_each (take neighbors (knnSearch s)) (edge_step sub j inputToIndices)
              (edges, edgeWeights);
          let values = evaluateFunc (map (\<lambda>f. f s) features);
          (probabilityMatrix', nbClassBest, valClassBest) \<leftarrow>
            for_each [0..<L] (unary_step to_float flog values j) (probabilityMatrix, 0, Finite 0);
          assignedLabel' \<leftarrow> vset assignedLabel j nbClassBest;
          Some (edges', edgeWeights', probabilityMatrix', assignedLabel')
        })"

text \<open>Lines 292-343: what is handed to \<^verbatim>\<open>alphaExpansionGraphcut\<close> for the tile \<open>sub\<close>.\<close>

definition tile_graph ::
  "(real \<Rightarrow> fvalue) \<Rightarrow> (real \<Rightarrow> real)
    \<Rightarrow> (nat \<Rightarrow> nat list) \<Rightarrow> (real list \<Rightarrow> real list) \<Rightarrow> (nat \<Rightarrow> real) list \<Rightarrow> nat
    \<Rightarrow> nat \<Rightarrow> nat list \<Rightarrow> (nat \<times> nat) list
    \<Rightarrow> ((nat \<times> nat) list \<times> real list \<times> fvalue list list \<times> nat list) option" where
  "tile_graph to_float flog knnSearch evaluateFunc features L sub tile inputToIndices =
     for_each [0..<length tile]
       (tile_point_step to_float flog knnSearch evaluateFunc features L sub tile inputToIndices)
       ([], [], replicate L (replicate (length tile) (Finite 0)), replicate (length tile) 0)"

text \<open>
  Lines 287-349, one tile. \<^verbatim>\<open>alphaExpansionGraphcut\<close> is only declared in the sources; \<open>alpha\<close>
  is the labelling it leaves in \<^verbatim>\<open>assignedLabel\<close>.
\<close>

definition tile_step ::
  "(real \<Rightarrow> fvalue) \<Rightarrow> (real \<Rightarrow> real)
    \<Rightarrow> (nat \<Rightarrow> nat list) \<Rightarrow> (real list \<Rightarrow> real list)
    \<Rightarrow> ((nat \<times> nat) list \<Rightarrow> real list \<Rightarrow> fvalue list list \<Rightarrow> nat list \<Rightarrow> nat list)
    \<Rightarrow> (nat \<Rightarrow> real) list \<Rightarrow> nat \<Rightarrow> nat list list \<Rightarrow> (nat \<times> nat) list \<Rightarrow> nat
    \<Rightarrow> u8 list \<Rightarrow> u8 list option" where
  "tile_step to_float flog knnSearch evaluateFunc alpha features L indices inputToIndices sub bl =
     do {
       tile \<leftarrow> vget indices sub;
       if tile = [] then Some bl
       else do {
         (edges, edgeWeights, probabilityMatrix, assignedLabel) \<leftarrow>
           tile_graph to_float flog knnSearch evaluateFunc features L sub tile inputToIndices;
         let assignedLabel' = alpha edges edgeWeights probabilityMatrix assignedLabel;
         for_each [0..<length assignedLabel']
           (\<lambda>i bl. do {
              l \<leftarrow> vget assignedLabel' i;
              s \<leftarrow> vget tile i;
              vset bl s (of_nat l)
            })
           bl
       }
     }"

definition infer_graphcut ::
  "(real \<Rightarrow> fvalue) \<Rightarrow> (real \<Rightarrow> real)
    \<Rightarrow> nat \<Rightarrow> (nat \<Rightarrow> nat \<Rightarrow> bool) \<Rightarrow> (nat \<Rightarrow> nat list) \<Rightarrow> (real list \<Rightarrow> real list)
    \<Rightarrow> ((nat \<times> nat) list \<Rightarrow> real list \<Rightarrow> fvalue list list \<Rightarrow> nat list \<Rightarrow> nat list)
    \<Rightarrow> (nat \<Rightarrow> real) list \<Rightarrow> nat \<Rightarrow> nat \<Rightarrow> u8 list \<Rightarrow> u8 list option" where
  "infer_graphcut to_float flog nb contains knnSearch evaluateFunc alpha features L n bl =
     do {
       (indices, inputToIndices) \<leftarrow> assignTiles nb contains n;
       for_each [0..<length indices]
         (tile_step to_float flog knnSearch evaluateFunc alpha features L indices inputToIndices) bl
     }"

subsection \<open>The label writer\<close>

text \<open>Lines 358-362: \<^verbatim>\<open>std::vector<bool> skipMap(255, false)\<close>.\<close>

definition mkSkipMap :: "int list \<Rightarrow> bool list option" where
  "mkSkipMap skip =
     for_each skip
       (\<lambda>skipClass skipMap.
          if skipClass \<ge> 0 \<and> skipClass \<le> 255 then vset skipMap (nat skipClass) True
          else Some skipMap)
       (replicate 255 False)"

text \<open>
  Lines 369-404, one surface point \<open>i\<close>. \<open>UNCLASSIFIED\<close> is the constant
  \<^verbatim>\<open>LABEL_UNCLASSIFIED\<close> of \<^verbatim>\<open>constants.hpp\<close> and \<open>train2asprsCodes\<close> the table
  \<^verbatim>\<open>getTrain2AsprsCodes()\<close>, both parameters; modelled from the spec, the table has an entry for
  every byte. Of \<^verbatim>\<open>stats.record(bestClass, pointSet.labels[i])\<close> the read of the label is kept.
\<close>

definition write_step ::
  "label list \<Rightarrow> bool \<Rightarrow> bool \<Rightarrow> bool \<Rightarrow> nat \<Rightarrow> (u8 \<Rightarrow> u8) \<Rightarrow> bool list \<Rightarrow> nat
    \<Rightarrow> pointSet \<Rightarrow> pointSet option" where
  "write_step lbls useColors unclassifiedOnly evaluate UNCLASSIFIED train2asprsCodes skipMap i ps =
     do {
       idx \<leftarrow> vget (pointMap ps) i;
       b \<leftarrow> vget (base_labels ps) idx;
       let bestClass = unat b;
       lab \<leftarrow> vget lbls bestClass;
       truth \<leftarrow> (if evaluate then vget (labels ps) i else Some 0);
       let hasLabels = hasLabels ps;
       classified \<leftarrow> (if unclassifiedOnly \<and> hasLabels
                      then map_option (\<lambda>l. unat l \<noteq> UNCLASSIFIED) (vget (labels ps) i)
                      else Some False);
       let asprsCode = unat (asprs_code lab);
       skipped \<leftarrow> vget skipMap asprsCode;
       let update = (\<not> classified \<and> \<not> skipped);
       if update then
         if useColors then
           do { colors' \<leftarrow> vset (colors ps) i (color lab); Some (ps\<lparr>colors := colors'\<rparr>) }
         else
           do { labels' \<leftarrow> vset (labels ps) i (of_nat asprsCode); Some (ps\<lparr>labels := labels'\<rparr>) }
       else if hasLabels then
         do {
           l \<leftarrow> vget (labels ps) i;
           labels' \<leftarrow> vset (labels ps) i (train2asprsCodes l);
           Some (ps\<lparr>labels := labels'\<rparr>)
         }
       else Some ps
     }"

text \<open>Lines 357-404.\<close>

definition writeLabels ::
  "label list \<Rightarrow> bool \<Rightarrow> bool \<Rightarrow> bool \<Rightarrow> nat \<Rightarrow> (u8 \<Rightarrow> u8) \<Rightarrow> int list
    \<Rightarrow> pointSet \<Rightarrow> pointSet option" where
  "writeLabels lbls useColors unclassifiedOnly evaluate UNCLASSIFIED train2asprsCodes skip ps =
     (let ps1 = (if \<not> useColors \<and> \<not> hasLabels ps
                 then ps\<lparr>labels := resize (labels ps) (pcount ps)\<rparr> else ps)
      in do {
        skipMap \<leftarrow> mkSkipMap skip;
        for_each [0..<pcount ps1]
          (write_step lbls useColors unclassifiedOnly evaluate UNCLASSIFIED train2asprsCodes skipMap)
          ps1
      })"

text \<open>
  The queries \<^verbatim>\<open>classifyData\<close> makes on positions: the tiling, the k nearest neighbours and
  the matches within \<^verbatim>\<open>regRadius\<close>; the graph-cut solver; for the Graph-Cut path, the
  conversion of a probability to \<^verbatim>\<open>float\<close> and the logarithm on \<^verbatim>\<open>float\<close>; and, for the
  Local-Smooth path, the rounding of an operation in \<^verbatim>\<open>T\<close>.
\<close>

record collaborators =
  nb :: nat
  contains :: "nat \<Rightarrow> nat \<Rightarrow> bool"
  knnSearch :: "nat \<Rightarrow> nat list"
  radiusSearch :: "nat \<Rightarrow> nat list"
  alphaExpansionGraphcut ::
    "(nat \<times> nat) list \<Rightarrow> real list \<Rightarrow> fvalue list list \<Rightarrow> nat list \<Rightarrow> nat list"
  narrowing :: "real \<Rightarrow> fvalue"
  float_log :: "real \<Rightarrow> real"
  rounding :: "real \<Rightarrow> real"

text \<open>Lines 133-355: the inference, which fills \<^verbatim>\<open>pointSet.base->labels\<close>.\<close>

definition infer ::
  "collaborators \<Rightarrow> (real list \<Rightarrow> real list) \<Rightarrow> (nat \<Rightarrow> real) list \<Rightarrow> nat \<Rightarrow> Regularization
    \<Rightarrow> nat \<Rightarrow> u8 list \<Rightarrow> u8 list option" where
  "infer env evaluateFunc features L regularization n bl =
     (case regularization of
        NoRegularization \<Rightarrow> infer_none evaluateFunc features L n bl
      | LocalSmooth \<Rightarrow>
          infer_smooth (rounding env) (radiusSearch env) evaluateFunc features L n bl
      | GraphCut \<Rightarrow>
          infer_graphcut (narrowing env) (float_log env) (nb env) (contains env) (knnSearch env)
            evaluateFunc (alphaExpansionGraphcut env) features L n bl)"

text \<open>\<^verbatim>\<open>classifyData\<close>: the result is the point set as the call leaves it.\<close>

definition classifyData ::
  "collaborators \<Rightarrow> nat \<Rightarrow> (u8 \<Rightarrow> u8) \<Rightarrow> pointSet \<Rightarrow> (real list \<Rightarrow> real list)
    \<Rightarrow> (nat \<Rightarrow> real) list \<Rightarrow> label list \<Rightarrow> Regularization \<Rightarrow> bool \<Rightarrow> bool \<Rightarrow> bool \<Rightarrow> int list
    \<Rightarrow> pointSet option" where
  "classifyData env UNCLASSIFIED train2asprsCodes pointSet evaluateFunc features lbls
     regularization useColors unclassifiedOnly evaluate skip =
     do {
       bl \<leftarrow> infer env evaluateFunc features (length lbls) regularization (base_count pointSet)
               (resize (base_labels pointSet) (base_count pointSet));
       writeLabels lbls useColors unclassifiedOnly evaluate UNCLASSIFIED train2asprsCodes skip
         (pointSet\<lparr>base_labels := bl\<rparr>)
     }"

section \<open>NodeGini::determine_best_threshold\<close>









section \<open>Notions used in the statements\<close>

text \<open>The number of \<^verbatim>\<open>storeFeatures\<close> calls for class \<open>c\<close> in a trace.\<close>

fun is_store :: "nat \<Rightarrow> 'f event \<Rightarrow> bool" where
  "is_store c (Store fs idx g) = (g = c)"
| "is_store c (Scales r) = False"
| "is_store c (Init nf nl) = False"

definition stores :: "nat \<Rightarrow> 'f event list \<Rightarrow> nat" where
  "stores c tr = length (filter (is_store c) tr)"

text \<open>The number of candidates of class \<open>c\<close> in the list \<^verbatim>\<open>idxes\<close>.\<close>

definition candidates :: "nat \<Rightarrow> (nat \<times> nat) list \<Rightarrow> nat" where
  "candidates c idxes = length (filter (\<lambda>p. snd p = c) idxes)"

text \<open>
  The label the inference gives surface point \<open>i\<close>, and whether the writer updates the point:
  the flag \<^verbatim>\<open>update\<close> of lines 379-387, as a function of the point set on entry and of the
  inferred labels \<open>bl\<close> of \<open>base\<close>.
\<close>

definition bestLabel :: "label list \<Rightarrow> u8 list \<Rightarrow> pointSet \<Rightarrow> nat \<Rightarrow> label" where
  "bestLabel lbls bl ps i = lbls ! unat (bl ! (pointMap ps ! i))"

definition updated :: "label list \<Rightarrow> bool \<Rightarrow> nat \<Rightarrow> int list \<Rightarrow> u8 list \<Rightarrow> pointSet \<Rightarrow> nat \<Rightarrow> bool" where
  "updated lbls unclassifiedOnly UNCLASSIFIED skip bl ps i =
     (\<not> (unclassifiedOnly \<and> hasLabels ps \<and> unat (labels ps ! i) \<noteq> UNCLASSIFIED)
      \<and> uint (asprs_code (bestLabel lbls bl ps i)) \<notin> set skip)"

section \<open>Properties\<close>

subsection \<open>Evaluating the definitions on concrete inputs\<close>

lemma replicate_numeral: "replicate (numeral k) x = x # replicate (pred_numeral k) x"
  by (simp add: numeral_eq_Suc)

lemma list_update_numeral: "(x # xs)[numeral k := y] = x # xs[pred_numeral k := y]"
  by (simp add: numeral_eq_Suc)

lemmas run_simps = vget_def vset_def upt_conv_Cons replicate_numeral list_update_numeral Let_def

subsection \<open>Loops over a container\<close>

lemma for_each_invariant:
  assumes "for_each xs body s = Some s'" and "P s"
    and "\<And>x t t'. x \<in> set xs \<Longrightarrow> P t \<Longrightarrow> body x t = Some t' \<Longrightarrow> P t'"
  shows "P s'"
  using assms
proof (induction xs arbitrary: s)
  case Nil
  then show ?case by simp
next
  case (Cons x xs)
  from Cons.prems(1) obtain t where t: "body x s = Some t" and rest: "for_each xs body t = Some s'"
    by (auto split: option.splits)
  have "P t" using Cons.prems(2,3) t by auto
  then show ?case using Cons.IH [OF rest] Cons.prems(3) by auto
qed

lemma for_each_append:
  "for_each (xs @ ys) body s = (case for_each xs body s of None \<Rightarrow> None | Some t \<Rightarrow> for_each ys body t)"
  by (induction xs arbitrary: s) (auto split: option.splits)

subsection \<open>getTrainingData: counters and traces\<close>

lemma collect_step_counts:
  assumes "collect_step U ts tc ps i (cnt, sampled, idxes) = Some (cnt', sampled', idxes')"
    and "length cnt = L" and "\<forall>c<L. cnt ! c = candidates c idxes"
  shows "length cnt' = L \<and> (\<forall>c<L. cnt' ! c = candidates c idxes')"
  using assms
  by (auto simp: collect_step_def vget_def vset_def candidates_def Let_def nth_list_update
      split: if_splits option.splits Option.bind_splits)

lemma collect_counts:
  assumes "collect L U ts tc ps = Some (cnt, sampled, idxes)"
  shows "length cnt = L \<and> (\<forall>c<L. cnt ! c = candidates c idxes)"
proof -
  let ?P = "\<lambda>st. case st of (cnt, sampled, idxes) \<Rightarrow>
     length cnt = L \<and> (\<forall>c<L. cnt ! c = candidates c idxes)"
  have "?P (cnt, sampled, idxes)"
  proof (rule for_each_invariant [where P = ?P, OF assms [unfolded collect_def]])
    show "?P (replicate L 0, replicate (pcount ps) False, [])"
      by (simp add: candidates_def)
  next
    fix x t t'
    assume "?P t" and "collect_step U ts tc ps x t = Some t'"
    then show "?P t'"
      using collect_step_counts [of U ts tc ps x _ _ _ _ _ _ L]
      by (cases t; cases t') auto
  qed
  then show ?thesis by simp
qed

lemma store_loop_counts:
  assumes "for_each ys (store_step fs spl) (added, tr) = Some (added', tr')"
    and "c < length added"
  shows "length added' = length added
     \<and> added' ! c = (if added ! c \<le> spl then min (added ! c + candidates c ys) spl else added ! c)
     \<and> stores c tr' + added ! c = stores c tr + added' ! c"
  using assms
proof (induction ys arbitrary: added tr)
  case Nil
  then show ?case by (simp add: candidates_def)
next
  case (Cons p ys)
  obtain idx g where p: "p = (idx, g)" by (cases p)
  from Cons.prems(1) obtain added1 tr1
    where step: "store_step fs spl p (added, tr) = Some (added1, tr1)"
      and rest: "for_each ys (store_step fs spl) (added1, tr1) = Some (added', tr')"
    by (auto split: option.splits)
  have len: "length added1 = length added"
    using step by (auto simp: store_step_def p vget_def vset_def split: if_splits Option.bind_splits)
  have one: "added1 ! c = (if g = c \<and> added ! c < spl then added ! c + 1 else added ! c)"
    "stores c tr1 = (if g = c \<and> added ! c < spl then stores c tr + 1 else stores c tr)"
    using step Cons.prems(2)
    by (auto simp: store_step_def p vget_def vset_def stores_def nth_list_update
        split: if_splits Option.bind_splits)
  have c1: "c < length added1" using len Cons.prems(2) by simp
  note IH = Cons.IH [OF rest c1]
  have cand: "candidates c (p # ys) = (if g = c then 1 else 0) + candidates c ys"
    by (simp add: candidates_def p)
  show ?case
    using IH len one cand by (auto simp: min_def split: if_splits)
qed

lemma candidates_mset: "mset xs = mset ys \<Longrightarrow> candidates c xs = candidates c ys"
  unfolding candidates_def by (metis mset_filter size_mset)

lemma fold_min_counts:
  "fold (\<lambda>i spl. if cnt ! i > 0 then min (cnt ! i) spl else spl) [0..<n] (a::nat)
     = Min (insert a {cnt ! i |i. i < n \<and> 0 < cnt ! i})"
proof (induction n)
  case 0
  then show ?case by simp
next
  case (Suc n)
  let ?S = "\<lambda>n. {cnt ! i |i. i < n \<and> 0 < cnt ! i}"
  have fin: "finite (?S n)" by simp
  have S: "?S (Suc n) = (if 0 < cnt ! n then insert (cnt ! n) (?S n) else ?S n)"
    by (auto simp: less_Suc_eq)
  show ?case
  proof (cases "0 < cnt ! n")
    case True
    have "Min (insert (cnt ! n) (insert a (?S n))) = min (cnt ! n) (Min (insert a (?S n)))"
      using fin by (intro Min_insert) auto
    moreover have "insert a (?S (Suc n)) = insert (cnt ! n) (insert a (?S n))"
      using S True by auto
    ultimately have "Min (insert a (?S (Suc n))) = min (cnt ! n) (Min (insert a (?S n)))"
      by simp
    then show ?thesis using True Suc.IH by simp
  next
    case False
    then show ?thesis using S Suc.IH by simp
  qed
qed

lemma sampleFile_quota:
  assumes perm: "mset (shuffle idxes) = mset idxes"
    and coll: "collect L U ts tc ps = Some (cnt, sampled, idxes)"
    and run: "sampleFile shuffle L U ts tc maxSamples features ps tr = Some tr'"
    and c: "c < L"
  shows "stores c tr' = stores c tr + min (cnt ! c) (samplesPerLabel cnt L maxSamples)"
proof -
  let ?spl = "samplesPerLabel cnt L maxSamples"
  from run coll obtain added where
    loop: "for_each (shuffle idxes) (store_step features ?spl) (replicate L 0, tr) = Some (added, tr')"
    by (auto simp: sampleFile_def Let_def split: Option.bind_splits)
  have cnt: "cnt ! c = candidates c idxes"
    using collect_counts [OF coll] c by simp
  have "candidates c (shuffle idxes) = candidates c idxes"
    by (rule candidates_mset [OF perm])
  with store_loop_counts [OF loop] c cnt show ?thesis by simp
qed

lemma store_step_trace:
  assumes "store_step fs spl p (added, tr) = Some (added', tr')"
  shows "tr' = tr \<or> (\<exists>idx g. tr' = tr @ [Store fs idx g])"
  using assms
  by (cases p) (auto simp: store_step_def split: if_splits Option.bind_splits)

lemma sampleFile_trace:
  assumes "sampleFile shuffle L U ts tc maxSamples fs ps tr = Some tr'"
  shows "\<forall>e \<in> set tr'. e \<in> set tr \<or> (\<exists>idx g. e = Store fs idx g)"
proof -
  from assms obtain ys spl added where
    loop: "for_each ys (store_step fs spl) (replicate L 0, tr) = Some (added, tr')"
    by (auto simp: sampleFile_def Let_def split: Option.bind_splits)
  let ?P = "\<lambda>st. \<forall>e \<in> set (snd st). e \<in> set tr \<or> (\<exists>idx g. e = Store fs idx g)"
  have "?P (added, tr')"
  proof (rule for_each_invariant [where P = ?P, OF loop])
    show "?P (replicate L 0, tr)" by simp
  next
    fix x t t'
    assume "?P t" and "store_step fs spl x t = Some t'"
    then show "?P t'"
      using store_step_trace [of fs spl x "fst t" "snd t" "fst t'" "snd t'"] by auto
  qed
  then show ?thesis by simp
qed

lemma file_loop_skip:
  assumes "\<forall>p \<in> set pre. \<not> hasLabels p"
  shows "file_loop shuffle featuresOf L U ts tc numScales radius maxSamples i (pre @ rest) st
       = file_loop shuffle featuresOf L U ts tc numScales radius maxSamples (i + length pre) rest st"
  using assms
  by (induction pre arbitrary: i) (auto split: prod.splits)

lemma file_loop_keeps:
  assumes "file_loop shuffle featuresOf L U ts tc numScales radius maxSamples i files (res, tr)
             = Some (res', tr')"
    and "res \<noteq> - 1"
  shows "res' = res \<and> (\<forall>r. Scales r \<in> set tr' \<longrightarrow> Scales r \<in> set tr \<or> r = res)"
  using assms
proof (induction files arbitrary: i tr)
  case Nil
  then show ?case by simp
next
  case (Cons ps rest)
  show ?case
  proof (cases "hasLabels ps")
    case False
    with Cons.prems have "file_loop shuffle featuresOf L U ts tc numScales radius maxSamples
        (i + 1) rest (res, tr) = Some (res', tr')" by simp
    from Cons.IH [OF this Cons.prems(2)] show ?thesis .
  next
    case True
    let ?fs = "featuresOf numScales ps res radius"
    let ?tr2 = "if i = 0 then tr @ [Scales res] @ [Init (length ?fs) L] else tr @ [Scales res]"
    from Cons.prems True obtain tr3 where
      s: "sampleFile (shuffle i) L U ts tc maxSamples ?fs ps ?tr2 = Some tr3"
      and rest: "file_loop shuffle featuresOf L U ts tc numScales radius maxSamples
        (i + 1) rest (res, tr3) = Some (res', tr')"
      by (auto simp: Let_def split: Option.bind_splits if_splits)
    have "\<forall>r. Scales r \<in> set tr3 \<longrightarrow> Scales r \<in> set tr \<or> r = res"
      using sampleFile_trace [OF s] by (auto split: if_splits)
    with Cons.IH [OF rest Cons.prems(2)] show ?thesis by blast
  qed
qed

lemma file_loop_first:
  assumes "file_loop shuffle featuresOf L U ts tc numScales radius maxSamples i (f # post) (- 1, tr)
             = Some (res', tr')"
    and "hasLabels f" and "spacing f \<noteq> - 1"
  shows "res' = spacing f \<and> (\<forall>r. Scales r \<in> set tr' \<longrightarrow> Scales r \<in> set tr \<or> r = spacing f)"
proof -
  let ?res = "spacing f"
  let ?fs = "featuresOf numScales f ?res radius"
  let ?tr2 = "if i = 0 then tr @ [Scales ?res] @ [Init (length ?fs) L] else tr @ [Scales ?res]"
  from assms(1,2) obtain tr3 where
    s: "sampleFile (shuffle i) L U ts tc maxSamples ?fs f ?tr2 = Some tr3"
    and rest: "file_loop shuffle featuresOf L U ts tc numScales radius maxSamples
        (i + 1) post (?res, tr3) = Some (res', tr')"
    by (auto simp: Let_def split: Option.bind_splits if_splits)
  have "\<forall>r. Scales r \<in> set tr3 \<longrightarrow> Scales r \<in> set tr \<or> r = ?res"
    using sampleFile_trace [OF s] by (auto split: if_splits)
  with file_loop_keeps [OF rest assms(3)] show ?thesis by blast
qed

subsection \<open>getTrainingData: the init callback\<close>

text \<open>
  Claim C2. The claim: \<^verbatim>\<open>init\<close> is invoked exactly once, on the first file that is not skipped
  for lacking labels, before the first sample is emitted, also when earlier files were skipped.
  The source calls \<^verbatim>\<open>init\<close> under \<^verbatim>\<open>if (i == 0)\<close>, after the \<^verbatim>\<open>continue\<close> that skips a file
  without labels. On the file list below, whose first file has no labels and whose second has
  one labelled point, the trace holds a \<open>Store\<close> and no \<open>Init\<close>.
\<close>

theorem init_missed_when_first_file_skipped:
  "getTrainingData (\<lambda>i xs. xs) (\<lambda>numScales ps r radius. [()]) 2 255 (\<lambda>c. c)
     [\<lparr>pcount = 1, labels = [], colors = [], pointMap = [0], spacing = 1 / 4,
        base_count = 1, base_labels = []\<rparr>,
      \<lparr>pcount = 1, labels = [0], colors = [], pointMap = [0], spacing = 1 / 2,
        base_count = 1, base_labels = []\<rparr>]
     (- 1) 3 (6 / 10) 100 []
   = Some (1 / 2, [Scales (1 / 2), Store [()] 0 0])"
  by (simp add: getTrainingData_def hasLabels_def sampleFile_def collect_def collect_step_def
      samplesPerLabel_def store_step_def SIZE_MAX_def size_t_of_int_def run_simps)

subsection \<open>getTrainingData: the start resolution\<close>

text \<open>
  Claim C3, as stated: for every \<open>startResolution \<le> 0\<close> on entry, the first file that is not
  skipped sets it to its \<open>spacing()\<close>. The source tests \<^verbatim>\<open>*startResolution == -1.0\<close>: entered
  with 0, one labelled file of spacing 1/2 leaves the resolution at 0, and the scales are
  computed at 0.
\<close>

theorem startResolution_zero_counterexample:
  "getTrainingData (\<lambda>i xs. xs) (\<lambda>numScales ps r radius. [()]) 2 255 (\<lambda>c. c)
     [\<lparr>pcount = 1, labels = [0], colors = [], pointMap = [0], spacing = 1 / 2,
        base_count = 1, base_labels = []\<rparr>]
     0 3 (6 / 10) 100 []
   = Some (0, [Scales 0, Init 1 2, Store [()] 0 0])"
  by (simp add: getTrainingData_def hasLabels_def sampleFile_def collect_def collect_step_def
      samplesPerLabel_def store_step_def SIZE_MAX_def size_t_of_int_def run_simps)

text \<open>
  Claim C3, amended: when \<open>startResolution\<close> is the sentinel \<open>-1.0\<close> on entry, the first file
  that is not skipped sets it to its \<open>spacing()\<close> (a spacing other than the sentinel), and
  that value is kept: it is the final resolution, and every call of \<^verbatim>\<open>computeScales\<close>, for
  that file and for all later ones, is made with it. Any other value on entry, 0 and the
  other negative values included, is used as given: it is the final resolution, and every
  call of \<^verbatim>\<open>computeScales\<close> is made with it.
\<close>

theorem startResolution_sentinel:
  assumes run: "getTrainingData shuffle featuresOf L UNASSIGNED asprsToTrain files startResolution
             numScales radius maxSamples asprsClasses = Some (res, tr)"
  shows "(startResolution \<noteq> - 1 \<longrightarrow>
            res = startResolution \<and> (\<forall>r. Scales r \<in> set tr \<longrightarrow> r = startResolution))
       \<and> (startResolution = - 1 \<longrightarrow>
            (\<forall>pre f post.
               files = pre @ f # post \<and> (\<forall>p \<in> set pre. \<not> hasLabels p) \<and> hasLabels f
                 \<and> spacing f \<noteq> - 1 \<longrightarrow>
               res = spacing f \<and> (\<forall>r. Scales r \<in> set tr \<longrightarrow> r = spacing f)))"
proof -
  from run obtain tc where
    loop: "file_loop shuffle featuresOf L UNASSIGNED (length asprsClasses > 0) tc numScales radius
       maxSamples 0 files (startResolution, []) = Some (res, tr)"
    by (auto simp: getTrainingData_def Let_def split: Option.bind_splits if_splits)
  have given: "res = startResolution \<and> (\<forall>r. Scales r \<in> set tr \<longrightarrow> r = startResolution)"
    if "startResolution \<noteq> - 1"
    using file_loop_keeps [OF loop that] by simp
  have derived: "res = spacing f \<and> (\<forall>r. Scales r \<in> set tr \<longrightarrow> r = spacing f)"
    if sentinel: "startResolution = - 1" and files: "files = pre @ f # post"
      and pre: "\<forall>p \<in> set pre. \<not> hasLabels p" and f: "hasLabels f" "spacing f \<noteq> - 1"
    for pre f post
  proof -
    from loop have "file_loop shuffle featuresOf L UNASSIGNED (length asprsClasses > 0) tc
        numScales radius maxSamples (0 + length pre) (f # post) (- 1, []) = Some (res, tr)"
      unfolding sentinel files by (simp only: file_loop_skip [OF pre])
    from file_loop_first [OF this f] show ?thesis by simp
  qed
  from given derived show ?thesis by blast
qed

theorem startResolution_sentinel_witness:
  "getTrainingData (\<lambda>i xs. xs) (\<lambda>numScales ps r radius. [()]) 2 255 (\<lambda>c. c)
     [\<lparr>pcount = 1, labels = [], colors = [], pointMap = [0], spacing = 1 / 4,
        base_count = 1, base_labels = []\<rparr>,
      \<lparr>pcount = 1, labels = [0], colors = [], pointMap = [0], spacing = 1 / 2,
        base_count = 1, base_labels = []\<rparr>,
      \<lparr>pcount = 1, labels = [0], colors = [], pointMap = [0], spacing = 1 / 8,
        base_count = 1, base_labels = []\<rparr>]
     (- 1) 3 (6 / 10) 100 []
   = Some (1 / 2, [Scales (1 / 2), Store [()] 0 0, Scales (1 / 2), Store [()] 0 0])
   \<and> getTrainingData (\<lambda>i xs. xs) (\<lambda>numScales ps r radius. [()]) 2 255 (\<lambda>c. c)
     [\<lparr>pcount = 1, labels = [], colors = [], pointMap = [0], spacing = 1 / 4,
        base_count = 1, base_labels = []\<rparr>,
      \<lparr>pcount = 1, labels = [0], colors = [], pointMap = [0], spacing = 1 / 2,
        base_count = 1, base_labels = []\<rparr>,
      \<lparr>pcount = 1, labels = [0], colors = [], pointMap = [0], spacing = 1 / 8,
        base_count = 1, base_labels = []\<rparr>]
     (- 2) 3 (6 / 10) 100 []
   = Some (- 2, [Scales (- 2), Store [()] 0 0, Scales (- 2), Store [()] 0 0])"
proof -
  let ?f0 = "\<lparr>pcount = 1, labels = [], colors = [], pointMap = [0], spacing = 1 / 4,
        base_count = 1, base_labels = []\<rparr>"
  let ?f1 = "\<lparr>pcount = 1, labels = [0], colors = [], pointMap = [0], spacing = 1 / 2,
        base_count = 1, base_labels = []\<rparr>"
  let ?f2 = "\<lparr>pcount = 1, labels = [0], colors = [], pointMap = [0], spacing = 1 / 8,
        base_count = 1, base_labels = []\<rparr>"
  let ?tr = "[Scales (1 / 2), Store [()] 0 0, Scales (1 / 2), Store [()] 0 0] :: unit event list"
  let ?tr' = "[Scales (- 2), Store [()] 0 0, Scales (- 2), Store [()] 0 0] :: unit event list"
  have run: "getTrainingData (\<lambda>i xs. xs) (\<lambda>numScales ps r radius. [()]) 2 255 (\<lambda>c. c)
     [?f0, ?f1, ?f2] (- 1) 3 (6 / 10) 100 [] = Some (1 / 2, ?tr)"
    by (simp add: getTrainingData_def hasLabels_def sampleFile_def collect_def collect_step_def
      samplesPerLabel_def store_step_def SIZE_MAX_def size_t_of_int_def run_simps)
  have run': "getTrainingData (\<lambda>i xs. xs) (\<lambda>numScales ps r radius. [()]) 2 255 (\<lambda>c. c)
     [?f0, ?f1, ?f2] (- 2) 3 (6 / 10) 100 [] = Some (- 2, ?tr')"
    by (simp add: getTrainingData_def hasLabels_def sampleFile_def collect_def collect_step_def
      samplesPerLabel_def store_step_def SIZE_MAX_def size_t_of_int_def run_simps)
  have files: "[?f0, ?f1, ?f2] = [?f0] @ ?f1 # [?f2]" by simp
  have pre: "\<forall>p \<in> set [?f0]. \<not> hasLabels p" by (simp add: hasLabels_def)
  have f: "hasLabels ?f1" "spacing ?f1 \<noteq> - 1" by (simp_all add: hasLabels_def)
  from startResolution_sentinel [OF run] files pre f
  have "(1 / 2 :: real) = spacing ?f1" by blast
  moreover from startResolution_sentinel [OF run'] have "(- 2 :: real) = - 2" by simp
  ultimately show ?thesis using run run' by simp
qed

subsection \<open>getTrainingData: the quota of a class\<close>

text \<open>
  Claim C4. For a processed file, let \<open>cnt\<close> be the counters \<^verbatim>\<open>count\<close> and \<open>idxes\<close> the
  candidates the file gives, and let the shuffle be any reordering of them. Then
  \<^verbatim>\<open>samplesPerLabel\<close> is the least of the counts of the non-empty classes and of \<^verbatim>\<open>maxSamples\<close>
  (as \<^verbatim>\<open>size_t\<close>, under the initial \<^verbatim>\<open>SIZE_MAX\<close>); the counter of a class is the number of its
  candidates; and for every class \<open>c\<close> the sampler calls \<^verbatim>\<open>storeFeatures\<close> at most
  \<^verbatim>\<open>samplesPerLabel\<close> times, exactly \<open>min (count[c]) samplesPerLabel\<close> times.
\<close>

theorem sampler_quota:
  assumes perm: "mset (shuffle idxes) = mset idxes"
    and coll: "collect L UNASSIGNED trainSubset trainClass ps = Some (cnt, sampled, idxes)"
    and run: "sampleFile shuffle L UNASSIGNED trainSubset trainClass maxSamples features ps tr
                = Some tr'"
    and c: "c < L"
  shows "samplesPerLabel cnt L maxSamples
           = Min (insert (size_t_of_int maxSamples)
                   (insert SIZE_MAX {cnt ! i |i. i < L \<and> 0 < cnt ! i}))
       \<and> cnt ! c = candidates c idxes
       \<and> stores c tr' - stores c tr \<le> samplesPerLabel cnt L maxSamples
       \<and> stores c tr' - stores c tr = min (cnt ! c) (samplesPerLabel cnt L maxSamples)"
proof -
  let ?S = "{cnt ! i |i. i < L \<and> 0 < cnt ! i}"
  have "finite (insert SIZE_MAX ?S)" by simp
  then have "Min (insert (size_t_of_int maxSamples) (insert SIZE_MAX ?S))
      = min (size_t_of_int maxSamples) (Min (insert SIZE_MAX ?S))"
    by (intro Min_insert) auto
  then have spl: "samplesPerLabel cnt L maxSamples
      = Min (insert (size_t_of_int maxSamples) (insert SIZE_MAX ?S))"
    by (simp add: samplesPerLabel_def fold_min_counts min.commute)
  have cnt: "cnt ! c = candidates c idxes"
    using collect_counts [OF coll] c by simp
  have q: "stores c tr' - stores c tr = min (cnt ! c) (samplesPerLabel cnt L maxSamples)"
    using sampleFile_quota [OF perm coll run c] by simp
  have le: "stores c tr' - stores c tr \<le> samplesPerLabel cnt L maxSamples"
    unfolding q by simp
  show ?thesis using spl cnt le q by blast
qed

theorem sampler_quota_witness:
  "stores 0 (the (sampleFile rev 2 255 False [] 10 [()]
      \<lparr>pcount = 5, labels = [0, 0, 0, 1, 1], colors = [], pointMap = [0, 1, 2, 3, 4],
       spacing = 1 / 2, base_count = 5, base_labels = []\<rparr> [])) = 2"
proof -
  let ?ps = "\<lparr>pcount = 5, labels = [0, 0, 0, 1, 1], colors = [], pointMap = [0, 1, 2, 3, 4],
       spacing = 1 / 2, base_count = 5, base_labels = []\<rparr>"
  let ?idxes = "[(0, 0), (1, 0), (2, 0), (3, 1), (4, 1)] :: (nat \<times> nat) list"
  have c: "collect 2 255 False [] ?ps = Some ([3, 2], [True, True, True, True, True], ?idxes)"
    by (simp add: collect_def collect_step_def run_simps)
  have spl: "samplesPerLabel [3, 2] 2 10 = 2"
    by (simp add: samplesPerLabel_def SIZE_MAX_def size_t_of_int_def run_simps)
  have s: "sampleFile rev 2 255 False [] 10 [()] ?ps [] =
      Some [Store [()] 4 1, Store [()] 3 1, Store [()] 2 0, Store [()] 1 0]"
    unfolding sampleFile_def c by (simp add: spl store_step_def run_simps)
  have p: "mset (rev ?idxes) = mset ?idxes" by simp
  have "(0::nat) < 2" by simp
  from sampler_quota [OF p c s this] show ?thesis
    unfolding s spl by (simp add: stores_def)
qed

subsection \<open>Loops over an index range\<close>

lemma for_each_upt_induct:
  assumes "for_each [m..<n] body s = Some s'" and "m \<le> n" and "P m s"
    and "\<And>i t t'. m \<le> i \<Longrightarrow> i < n \<Longrightarrow> P i t \<Longrightarrow> body i t = Some t' \<Longrightarrow> P (Suc i) t'"
  shows "P n s'"
  using assms
proof (induction n arbitrary: s')
  case 0
  then show ?case by simp
next
  case (Suc n)
  show ?case
  proof (cases "m = Suc n")
    case True
    with Suc.prems show ?thesis by simp
  next
    case False
    with Suc.prems(2) have mn: "m \<le> n" by simp
    then have "[m..<Suc n] = [m..<n] @ [n]" by simp
    with Suc.prems(1) obtain t where t: "for_each [m..<n] body s = Some t"
      and last: "body n t = Some s'"
      by (auto simp: for_each_append split: option.splits)
    have "P n t"
      using Suc.IH [OF t mn Suc.prems(3)] Suc.prems(4) by simp
    with last mn Suc.prems(4) show ?thesis by simp
  qed
qed

subsection \<open>classifyData: the search for the highest probability\<close>

lemma best_step_inv:
  fixes probs :: "'p::{linorder,zero} list"
  assumes "best_step probs n (b, v) = Some (b', v')"
    and "(v = 0 \<and> b = 0 \<and> (\<forall>j<n. probs ! j \<le> 0))
       \<or> (b < n \<and> v = probs ! b \<and> 0 < v \<and> (\<forall>j<n. probs ! j \<le> v) \<and> (\<forall>j<b. probs ! j < v))"
  shows "n < length probs \<and> ((v' = 0 \<and> b' = 0 \<and> (\<forall>j<Suc n. probs ! j \<le> 0))
       \<or> (b' < Suc n \<and> v' = probs ! b' \<and> 0 < v' \<and> (\<forall>j<Suc n. probs ! j \<le> v')
            \<and> (\<forall>j<b'. probs ! j < v')))"
proof -
  from assms(1) have n: "n < length probs"
    and r: "(b', v') = (if probs ! n > v then (n, probs ! n) else (b, v))"
    by (auto simp: best_step_def vget_def split: if_splits)
  show ?thesis
  proof (cases "probs ! n > v")
    case True
    with r have e: "b' = n" "v' = probs ! n" by simp_all
    from assms(2) True have pos: "0 < probs ! n" by auto
    have "\<forall>j<n. probs ! j < probs ! n" using assms(2) True by auto
    then have "\<forall>j<Suc n. probs ! j \<le> probs ! n"
      by (auto simp: less_Suc_eq intro: less_imp_le)
    with e pos \<open>\<forall>j<n. probs ! j < probs ! n\<close> n show ?thesis by auto
  next
    case False
    with r have e: "b' = b" "v' = v" by simp_all
    from False have le: "probs ! n \<le> v" by simp
    from assms(2) show ?thesis
    proof
      assume a: "v = 0 \<and> b = 0 \<and> (\<forall>j<n. probs ! j \<le> 0)"
      with le have "\<forall>j<Suc n. probs ! j \<le> 0" by (auto simp: less_Suc_eq)
      with a e n show ?thesis by simp
    next
      assume a: "b < n \<and> v = probs ! b \<and> 0 < v \<and> (\<forall>j<n. probs ! j \<le> v) \<and> (\<forall>j<b. probs ! j < v)"
      with le have "\<forall>j<Suc n. probs ! j \<le> v" by (auto simp: less_Suc_eq)
      with a e n show ?thesis by auto
    qed
  qed
qed

lemma findBest_spec:
  fixes probs :: "'p::{linorder,zero} list"
  assumes "findBest L probs = Some (b, v)"
  shows "L \<le> length probs \<and> ((v = 0 \<and> b = 0 \<and> (\<forall>j<L. probs ! j \<le> 0))
       \<or> (b < L \<and> v = probs ! b \<and> 0 < v \<and> (\<forall>j<L. probs ! j \<le> v) \<and> (\<forall>j<b. probs ! j < v)))"
proof -
  let ?P = "\<lambda>n st. n \<le> length probs \<and> (case st of (b, v) \<Rightarrow>
      (v = 0 \<and> b = 0 \<and> (\<forall>j<n. probs ! j \<le> 0))
       \<or> (b < n \<and> v = probs ! b \<and> 0 < v \<and> (\<forall>j<n. probs ! j \<le> v) \<and> (\<forall>j<b. probs ! j < v)))"
  have "?P L (b, v)"
  proof (rule for_each_upt_induct [where P = ?P, OF assms [unfolded findBest_def]])
    show "?P 0 (0, 0)" by simp
  next
    fix i t t'
    assume "?P i t" and "best_step probs i t = Some t'"
    then show "?P (Suc i) t'"
      using best_step_inv [of probs i "fst t" "snd t" "fst t'" "snd t'"]
      by (cases t; cases t') auto
  qed simp
  then show ?thesis by simp
qed

lemma infer_none_spec:
  assumes "infer_none evaluateFunc features L n bl = Some bl'"
  shows "length bl' = length bl
     \<and> (\<forall>i<n. \<exists>b v. findBest L (evaluateFunc (map (\<lambda>f. f i) features)) = Some (b, v)
            \<and> bl' ! i = of_nat b)"
proof -
  let ?P = "\<lambda>k t. length t = length bl
     \<and> (\<forall>i<k. \<exists>b v. findBest L (evaluateFunc (map (\<lambda>f. f i) features)) = Some (b, v)
            \<and> t ! i = of_nat b)"
  show ?thesis
  proof (rule for_each_upt_induct [where P = ?P, OF assms [unfolded infer_none_def]])
    show "?P 0 bl" by simp
  next
    fix i t t'
    assume P: "?P i t" and step: "infer_none_step evaluateFunc features L i t = Some t'"
    from step obtain b v where
      fb: "findBest L (evaluateFunc (map (\<lambda>f. f i) features)) = Some (b, v)"
      and i: "i < length t" and t': "t' = t[i := of_nat b]"
      by (auto simp: infer_none_step_def vset_def Let_def split: Option.bind_splits if_splits)
    show "?P (Suc i) t'"
      using P fb i t' by (auto simp: less_Suc_eq nth_list_update)
  qed simp
qed

subsection \<open>classifyData: the label writer\<close>

lemma mkSkipMap_spec:
  assumes "mkSkipMap skip = Some skipMap"
  shows "length skipMap = 255 \<and> (\<forall>c<255. skipMap ! c = (int c \<in> set skip))"
proof -
  have gen: "for_each xs
       (\<lambda>skipClass skipMap.
          if skipClass \<ge> 0 \<and> skipClass \<le> 255 then vset skipMap (nat skipClass) True
          else Some skipMap) m0 = Some m
     \<Longrightarrow> length m0 \<le> 256
     \<Longrightarrow> length m = length m0 \<and> (\<forall>c<length m0. m ! c = (m0 ! c \<or> int c \<in> set xs))"
    for xs m0 m
  proof (induction xs arbitrary: m0)
    case Nil
    then show ?case by simp
  next
    case (Cons x xs)
    from Cons.prems obtain m1 where
      m1: "(if x \<ge> 0 \<and> x \<le> 255 then vset m0 (nat x) True else Some m0) = Some m1"
      and rest: "for_each xs
       (\<lambda>skipClass skipMap.
          if skipClass \<ge> 0 \<and> skipClass \<le> 255 then vset skipMap (nat skipClass) True
          else Some skipMap) m1 = Some m"
      by (auto split: option.splits)
    from m1 Cons.prems(2) have l1: "length m1 = length m0"
      and v1: "\<forall>c<length m0. m1 ! c = (m0 ! c \<or> int c = x)"
      by (auto simp: vset_def nth_list_update split: if_splits)
    from Cons.IH [OF rest] l1 v1 Cons.prems(2) show ?case by auto
  qed
  from gen [OF assms [unfolded mkSkipMap_def]] show ?thesis by simp
qed

lemma write_step_cases:
  assumes "write_step lbls useColors unclassifiedOnly evaluate UNCLASSIFIED t2a skipMap i t = Some t'"
  shows "\<exists>lab classified skipped.
     lab = lbls ! unat (base_labels t ! (pointMap t ! i))
     \<and> classified = (unclassifiedOnly \<and> hasLabels t \<and> unat (labels t ! i) \<noteq> UNCLASSIFIED)
     \<and> unat (base_labels t ! (pointMap t ! i)) < length lbls
     \<and> unat (asprs_code lab) < length skipMap
     \<and> skipped = skipMap ! unat (asprs_code lab)
     \<and> (if \<not> classified \<and> \<not> skipped then
           (if useColors then i < length (colors t) \<and> t' = t\<lparr>colors := (colors t)[i := color lab]\<rparr>
            else i < length (labels t) \<and> t' = t\<lparr>labels := (labels t)[i := asprs_code lab]\<rparr>)
         else if hasLabels t then
           i < length (labels t) \<and> t' = t\<lparr>labels := (labels t)[i := t2a (labels t ! i)]\<rparr>
         else t' = t)"
  using assms
  by (auto simp: write_step_def vget_def vset_def Let_def split: Option.bind_splits if_splits)

lemma write_loop_spec:
  assumes loop: "for_each [0..<n]
        (write_step lbls useColors unclassifiedOnly evaluate UNCLASSIFIED t2a skipMap) ps = Some ps'"
    and sm: "\<forall>c<length skipMap. skipMap ! c = (int c \<in> set skip)"
  shows "pcount ps' = pcount ps \<and> pointMap ps' = pointMap ps \<and> base_labels ps' = base_labels ps
     \<and> base_count ps' = base_count ps \<and> spacing ps' = spacing ps
     \<and> length (labels ps') = length (labels ps) \<and> length (colors ps') = length (colors ps)
     \<and> (\<forall>i<n.
          unat (base_labels ps ! (pointMap ps ! i)) < length lbls \<and>
          labels ps' ! i =
            (if updated lbls unclassifiedOnly UNCLASSIFIED skip (base_labels ps) ps i then
               (if useColors then labels ps ! i
                else asprs_code (bestLabel lbls (base_labels ps) ps i))
             else if hasLabels ps then t2a (labels ps ! i) else labels ps ! i)
          \<and> colors ps' ! i =
            (if updated lbls unclassifiedOnly UNCLASSIFIED skip (base_labels ps) ps i \<and> useColors
             then color (bestLabel lbls (base_labels ps) ps i) else colors ps ! i))
     \<and> (\<forall>i\<ge>n. labels ps' ! i = labels ps ! i \<and> colors ps' ! i = colors ps ! i)"
proof -
  let ?upd = "updated lbls unclassifiedOnly UNCLASSIFIED skip (base_labels ps) ps"
  let ?lab = "bestLabel lbls (base_labels ps) ps"
  let ?newl = "\<lambda>i. if ?upd i then (if useColors then labels ps ! i else asprs_code (?lab i))
             else if hasLabels ps then t2a (labels ps ! i) else labels ps ! i"
  let ?newc = "\<lambda>i. if ?upd i \<and> useColors then color (?lab i) else colors ps ! i"
  let ?frame = "\<lambda>t. pcount t = pcount ps \<and> pointMap t = pointMap ps \<and> base_labels t = base_labels ps
     \<and> base_count t = base_count ps \<and> spacing t = spacing ps
     \<and> length (labels t) = length (labels ps) \<and> length (colors t) = length (colors ps)"
  let ?P = "\<lambda>k t. ?frame t
     \<and> (\<forall>i<k. unat (base_labels ps ! (pointMap ps ! i)) < length lbls
            \<and> labels t ! i = ?newl i \<and> colors t ! i = ?newc i)
     \<and> (\<forall>i\<ge>k. labels t ! i = labels ps ! i \<and> colors t ! i = colors ps ! i)"
  have "?P n ps'"
  proof (rule for_each_upt_induct [where P = ?P, OF loop])
    show "?P 0 ps" by simp
  next
    fix i t t'
    assume P: "?P i t"
      and step: "write_step lbls useColors unclassifiedOnly evaluate UNCLASSIFIED t2a skipMap i t = Some t'"
    from P have fr: "?frame t" and old: "\<forall>j<i. unat (base_labels ps ! (pointMap ps ! j)) < length lbls
             \<and> labels t ! j = ?newl j \<and> colors t ! j = ?newc j"
      and rest: "\<forall>j\<ge>i. labels t ! j = labels ps ! j \<and> colors t ! j = colors ps ! j"
      by blast+
    from fr have hl: "hasLabels t = hasLabels ps" by (auto simp: hasLabels_def)
    from rest have here: "labels t ! i = labels ps ! i" "colors t ! i = colors ps ! i" by simp_all
    let ?l = "lbls ! unat (base_labels t ! (pointMap t ! i))"
    have lab: "?l = ?lab i" using fr by (simp add: bestLabel_def)
    from write_step_cases [OF step] fr have
      valid: "unat (base_labels ps ! (pointMap ps ! i)) < length lbls" by auto
    from write_step_cases [OF step] have
      inr: "unat (asprs_code ?l) < length skipMap"
      and res: "if \<not> (unclassifiedOnly \<and> hasLabels t \<and> unat (labels t ! i) \<noteq> UNCLASSIFIED)
              \<and> \<not> skipMap ! unat (asprs_code ?l) then
           (if useColors then i < length (colors t) \<and> t' = t\<lparr>colors := (colors t)[i := color ?l]\<rparr>
            else i < length (labels t) \<and> t' = t\<lparr>labels := (labels t)[i := asprs_code ?l]\<rparr>)
         else if hasLabels t then
           i < length (labels t) \<and> t' = t\<lparr>labels := (labels t)[i := t2a (labels t ! i)]\<rparr>
         else t' = t"
      by auto
    have upd: "?upd i = (\<not> (unclassifiedOnly \<and> hasLabels t \<and> unat (labels t ! i) \<noteq> UNCLASSIFIED)
              \<and> \<not> skipMap ! unat (asprs_code ?l))"
    proof -
      have "skipMap ! unat (asprs_code ?l) = (int (unat (asprs_code ?l)) \<in> set skip)"
        using sm inr by blast
      then have "skipMap ! unat (asprs_code ?l) = (uint (asprs_code ?l) \<in> set skip)"
        by (simp only: uint_nat)
      then show ?thesis
        unfolding updated_def lab [symmetric] hl [symmetric] here [symmetric] by simp
    qed
    show "?P (Suc i) t'"
    proof (cases "?upd i")
      case True
      note u = True
      show ?thesis
      proof (cases useColors)
        case True
        with u upd res have i: "i < length (colors t)"
          and t': "t' = t\<lparr>colors := (colors t)[i := color ?l]\<rparr>" by auto
        show ?thesis
          using fr old rest here lab u True i valid
          by (auto simp: t' less_Suc_eq nth_list_update)
      next
        case False
        with u upd res have i: "i < length (labels t)"
          and t': "t' = t\<lparr>labels := (labels t)[i := asprs_code ?l]\<rparr>" by auto
        show ?thesis
          using fr old rest here lab u False i valid
          by (auto simp: t' less_Suc_eq nth_list_update)
      qed
    next
      case False
      note u = False
      show ?thesis
      proof (cases "hasLabels ps")
        case True
        with u upd res hl have i: "i < length (labels t)"
          and t': "t' = t\<lparr>labels := (labels t)[i := t2a (labels t ! i)]\<rparr>" by auto
        show ?thesis
          using fr old rest here lab u True i valid
          by (auto simp: t' less_Suc_eq nth_list_update)
      next
        case False
        with u upd res hl have t': "t' = t" by auto
        show ?thesis
          using fr old rest here lab u False valid
          by (auto simp: t' less_Suc_eq)
      qed
    qed
  qed simp
  then show ?thesis by blast
qed

lemma writeLabels_spec:
  assumes run: "writeLabels lbls useColors unclassifiedOnly evaluate UNCLASSIFIED t2a skip ps = Some ps'"
    and keep: "useColors \<or> hasLabels ps"
  shows "pcount ps' = pcount ps \<and> pointMap ps' = pointMap ps \<and> base_labels ps' = base_labels ps
     \<and> base_count ps' = base_count ps \<and> spacing ps' = spacing ps
     \<and> length (labels ps') = length (labels ps) \<and> length (colors ps') = length (colors ps)
     \<and> (\<forall>i<pcount ps.
          unat (base_labels ps ! (pointMap ps ! i)) < length lbls \<and>
          labels ps' ! i =
            (if updated lbls unclassifiedOnly UNCLASSIFIED skip (base_labels ps) ps i then
               (if useColors then labels ps ! i
                else asprs_code (bestLabel lbls (base_labels ps) ps i))
             else if hasLabels ps then t2a (labels ps ! i) else labels ps ! i)
          \<and> colors ps' ! i =
            (if updated lbls unclassifiedOnly UNCLASSIFIED skip (base_labels ps) ps i \<and> useColors
             then color (bestLabel lbls (base_labels ps) ps i) else colors ps ! i))
     \<and> (\<forall>i\<ge>pcount ps. labels ps' ! i = labels ps ! i \<and> colors ps' ! i = colors ps ! i)"
proof -
  from run keep obtain skipMap where sm: "mkSkipMap skip = Some skipMap"
    and loop: "for_each [0..<pcount ps]
        (write_step lbls useColors unclassifiedOnly evaluate UNCLASSIFIED t2a skipMap) ps = Some ps'"
    by (auto simp: writeLabels_def Let_def split: Option.bind_splits if_splits)
  from mkSkipMap_spec [OF sm] have "\<forall>c<length skipMap. skipMap ! c = (int c \<in> set skip)"
    by simp
  from write_loop_spec [OF loop this] show ?thesis .
qed

lemma classifyData_writer:
  assumes run: "classifyData env UNCLASSIFIED t2a ps evaluateFunc features lbls regularization
                  useColors unclassifiedOnly evaluate skip = Some ps'"
    and keep: "useColors \<or> hasLabels ps"
  shows "infer env evaluateFunc features (length lbls) regularization (base_count ps)
           (resize (base_labels ps) (base_count ps)) = Some (base_labels ps')
     \<and> length (labels ps') = length (labels ps) \<and> length (colors ps') = length (colors ps)
     \<and> (\<forall>i<pcount ps.
          unat (base_labels ps' ! (pointMap ps ! i)) < length lbls \<and>
          labels ps' ! i =
            (if updated lbls unclassifiedOnly UNCLASSIFIED skip (base_labels ps') ps i then
               (if useColors then labels ps ! i
                else asprs_code (bestLabel lbls (base_labels ps') ps i))
             else if hasLabels ps then t2a (labels ps ! i) else labels ps ! i)
          \<and> colors ps' ! i =
            (if updated lbls unclassifiedOnly UNCLASSIFIED skip (base_labels ps') ps i \<and> useColors
             then color (bestLabel lbls (base_labels ps') ps i) else colors ps ! i))
     \<and> (\<forall>i\<ge>pcount ps. labels ps' ! i = labels ps ! i \<and> colors ps' ! i = colors ps ! i)"
proof -
  from run obtain bl where
    inf: "infer env evaluateFunc features (length lbls) regularization (base_count ps)
           (resize (base_labels ps) (base_count ps)) = Some bl"
    and wr: "writeLabels lbls useColors unclassifiedOnly evaluate UNCLASSIFIED t2a skip
           (ps\<lparr>base_labels := bl\<rparr>) = Some ps'"
    by (auto simp: classifyData_def split: Option.bind_splits)
  let ?q = "ps\<lparr>base_labels := bl\<rparr>"
  have keep': "useColors \<or> hasLabels ?q" using keep by (simp add: hasLabels_def)
  have u: "updated lbls unclassifiedOnly UNCLASSIFIED skip bl ?q
         = updated lbls unclassifiedOnly UNCLASSIFIED skip bl ps"
    by (rule ext) (simp add: updated_def bestLabel_def hasLabels_def)
  have b: "bestLabel lbls bl ?q = bestLabel lbls bl ps"
    by (rule ext) (simp add: bestLabel_def)
  have h: "hasLabels ?q = hasLabels ps" by (simp add: hasLabels_def)
  from writeLabels_spec [OF wr keep'] have bl: "base_labels ps' = bl" by simp
  from writeLabels_spec [OF wr keep'] inf show ?thesis
    unfolding bl by (simp add: u b h)
qed

subsection \<open>classifyData: the claims on the label writer\<close>

lemmas classify_simps = classifyData_def infer_def infer_none_def infer_none_step_def findBest_def
  best_step_def writeLabels_def mkSkipMap_def write_step_def resize_def hasLabels_def
  vget_def vset_def upt_conv_Cons Let_def

text \<open>
  Claim C5, as stated: with labels on the surface and a skip set that holds the ASPRS code of
  every label, \<^verbatim>\<open>classifyData\<close> leaves \<^verbatim>\<open>labels[]\<close> bit-identical. The writer does not
  update such a point, and then takes the branch \<^verbatim>\<open>else if (hasLabels)\<close>, which replaces the
  label by its entry in \<^verbatim>\<open>train2asprsCodes\<close>. With the one label "ground" (training code 0,
  ASPRS code 2, so \<^verbatim>\<open>train2asprsCodes[0] = 2\<close>) and \<open>skip = [2]\<close>, the label 0 becomes 2.
\<close>

theorem skip_all_counterexample:
  "map_option labels
     (classifyData
        \<lparr>nb = 1, contains = (\<lambda>j i. True), knnSearch = (\<lambda>s. []), radiusSearch = (\<lambda>i. []),
         alphaExpansionGraphcut = (\<lambda>edges weights unary l. l),
         narrowing = Finite, float_log = ln, rounding = (\<lambda>x. x)\<rparr>
        1 (\<lambda>c. if c = 0 then 2 else c)
        \<lparr>pcount = 1, labels = [0], colors = [(0, 0, 0)], pointMap = [0], spacing = 1 / 2,
         base_count = 1, base_labels = []\<rparr>
        (\<lambda>ft. [1]) [] [\<lparr>asprs_code = 2, color = (10, 20, 30)\<rparr>]
        NoRegularization False False False [2])
   = Some [2]"
  by (simp add: classify_simps)

text \<open>
  Claim C5, amended: with labels on the surface and a skip set that holds the ASPRS code of
  every label, \<^verbatim>\<open>classifyData\<close> replaces the label of every surface point by its entry in
  \<^verbatim>\<open>train2asprsCodes\<close> (the training code reverted to ASPRS), and changes nothing else of
  \<^verbatim>\<open>labels[]\<close>; the array is bit-identical where the table maps the labels to themselves.
\<close>

theorem skip_all_reverts:
  assumes run: "classifyData env UNCLASSIFIED t2a ps evaluateFunc features lbls regularization
                  useColors unclassifiedOnly evaluate skip = Some ps'"
    and hl: "hasLabels ps"
    and skip: "\<forall>l \<in> set lbls. uint (asprs_code l) \<in> set skip"
  shows "length (labels ps') = length (labels ps)
     \<and> (\<forall>i<pcount ps. labels ps' ! i = t2a (labels ps ! i))
     \<and> (\<forall>i\<ge>pcount ps. labels ps' ! i = labels ps ! i)"
proof -
  note w = classifyData_writer [OF run disjI2 [OF hl]]
  have "\<not> updated lbls unclassifiedOnly UNCLASSIFIED skip (base_labels ps') ps i"
    if "i < pcount ps" for i
  proof -
    from w that have "unat (base_labels ps' ! (pointMap ps ! i)) < length lbls" by blast
    then have "bestLabel lbls (base_labels ps') ps i \<in> set lbls"
      by (simp add: bestLabel_def)
    with skip show ?thesis by (simp add: updated_def)
  qed
  with w hl show ?thesis by simp
qed

theorem skip_all_reverts_witness:
  "map_option labels
     (classifyData
        \<lparr>nb = 1, contains = (\<lambda>j i. True), knnSearch = (\<lambda>s. []), radiusSearch = (\<lambda>i. []),
         alphaExpansionGraphcut = (\<lambda>edges weights unary l. l),
         narrowing = Finite, float_log = ln, rounding = (\<lambda>x. x)\<rparr>
        1 (\<lambda>c. if c = 0 then 2 else c)
        \<lparr>pcount = 2, labels = [0, 5], colors = [(0, 0, 0), (0, 0, 0)], pointMap = [0, 0],
         spacing = 1 / 2, base_count = 1, base_labels = []\<rparr>
        (\<lambda>ft. [1]) [] [\<lparr>asprs_code = 2, color = (10, 20, 30)\<rparr>]
        NoRegularization False False False [2])
   = Some [2, 5]"
proof -
  let ?env = "\<lparr>nb = 1, contains = (\<lambda>j i. True), knnSearch = (\<lambda>s. []), radiusSearch = (\<lambda>i. []),
         alphaExpansionGraphcut = (\<lambda>edges weights unary l. l),
         narrowing = Finite, float_log = ln, rounding = (\<lambda>x. x)\<rparr>"
  let ?ps = "\<lparr>pcount = 2, labels = [0, 5], colors = [(0, 0, 0), (0, 0, 0)], pointMap = [0, 0],
         spacing = 1 / 2, base_count = 1, base_labels = []\<rparr>"
  let ?ps' = "\<lparr>pcount = 2, labels = [2, 5], colors = [(0, 0, 0), (0, 0, 0)], pointMap = [0, 0],
         spacing = 1 / 2, base_count = 1, base_labels = [0]\<rparr>"
  let ?t2a = "\<lambda>c :: u8. if c = 0 then 2 else c"
  have run: "classifyData ?env 1 ?t2a ?ps (\<lambda>ft. [1]) [] [\<lparr>asprs_code = 2, color = (10, 20, 30)\<rparr>]
        NoRegularization False False False [2] = Some ?ps'"
    by (simp add: classify_simps)
  have hl: "hasLabels ?ps" by (simp add: hasLabels_def)
  have skip: "\<forall>l \<in> set [\<lparr>asprs_code = 2, color = (10, 20, 30)\<rparr>]. uint (asprs_code l) \<in> set [2]"
    by simp
  from skip_all_reverts [OF run hl skip] show ?thesis
    unfolding run by simp
qed

text \<open>
  Claim C6, as stated: when every surface point carries a label other than
  \<^verbatim>\<open>LABEL_UNCLASSIFIED\<close>, \<^verbatim>\<open>classifyData\<close> with \<^verbatim>\<open>unclassifiedOnly = true\<close> leaves
  \<^verbatim>\<open>labels[]\<close> bit-identical. The same branch of the writer reverts the label: the label 0
  becomes 2.
\<close>

theorem unclassifiedOnly_counterexample:
  "map_option labels
     (classifyData
        \<lparr>nb = 1, contains = (\<lambda>j i. True), knnSearch = (\<lambda>s. []), radiusSearch = (\<lambda>i. []),
         alphaExpansionGraphcut = (\<lambda>edges weights unary l. l),
         narrowing = Finite, float_log = ln, rounding = (\<lambda>x. x)\<rparr>
        1 (\<lambda>c. if c = 0 then 2 else c)
        \<lparr>pcount = 1, labels = [0], colors = [(0, 0, 0)], pointMap = [0], spacing = 1 / 2,
         base_count = 1, base_labels = []\<rparr>
        (\<lambda>ft. [1]) [] [\<lparr>asprs_code = 2, color = (10, 20, 30)\<rparr>]
        NoRegularization False True False [])
   = Some [2]"
  by (simp add: classify_simps)

text \<open>
  Claim C6, amended: when every surface point carries a label other than
  \<^verbatim>\<open>LABEL_UNCLASSIFIED\<close>, \<^verbatim>\<open>classifyData\<close> with \<^verbatim>\<open>unclassifiedOnly = true\<close> writes no
  inferred class; it replaces the label of every surface point by its entry in
  \<^verbatim>\<open>train2asprsCodes\<close>, and changes nothing else of \<^verbatim>\<open>labels[]\<close>.
\<close>

theorem unclassifiedOnly_reverts:
  assumes run: "classifyData env UNCLASSIFIED t2a ps evaluateFunc features lbls regularization
                  useColors True evaluate skip = Some ps'"
    and hl: "hasLabels ps"
    and cl: "\<forall>i<pcount ps. unat (labels ps ! i) \<noteq> UNCLASSIFIED"
  shows "length (labels ps') = length (labels ps)
     \<and> (\<forall>i<pcount ps. labels ps' ! i = t2a (labels ps ! i))
     \<and> (\<forall>i\<ge>pcount ps. labels ps' ! i = labels ps ! i)"
proof -
  note w = classifyData_writer [OF run disjI2 [OF hl]]
  have "\<not> updated lbls True UNCLASSIFIED skip (base_labels ps') ps i" if "i < pcount ps" for i
    using cl hl that by (simp add: updated_def)
  with w hl show ?thesis by simp
qed

theorem unclassifiedOnly_reverts_witness:
  "map_option labels
     (classifyData
        \<lparr>nb = 1, contains = (\<lambda>j i. True), knnSearch = (\<lambda>s. []), radiusSearch = (\<lambda>i. []),
         alphaExpansionGraphcut = (\<lambda>edges weights unary l. l),
         narrowing = Finite, float_log = ln, rounding = (\<lambda>x. x)\<rparr>
        1 (\<lambda>c. if c = 0 then 2 else c)
        \<lparr>pcount = 2, labels = [0, 5], colors = [(0, 0, 0), (0, 0, 0)], pointMap = [0, 0],
         spacing = 1 / 2, base_count = 1, base_labels = []\<rparr>
        (\<lambda>ft. [1]) [] [\<lparr>asprs_code = 2, color = (10, 20, 30)\<rparr>]
        NoRegularization False True False [])
   = Some [2, 5]"
proof -
  let ?env = "\<lparr>nb = 1, contains = (\<lambda>j i. True), knnSearch = (\<lambda>s. []), radiusSearch = (\<lambda>i. []),
         alphaExpansionGraphcut = (\<lambda>edges weights unary l. l),
         narrowing = Finite, float_log = ln, rounding = (\<lambda>x. x)\<rparr>"
  let ?ps = "\<lparr>pcount = 2, labels = [0, 5], colors = [(0, 0, 0), (0, 0, 0)], pointMap = [0, 0],
         spacing = 1 / 2, base_count = 1, base_labels = []\<rparr>"
  let ?ps' = "\<lparr>pcount = 2, labels = [2, 5], colors = [(0, 0, 0), (0, 0, 0)], pointMap = [0, 0],
         spacing = 1 / 2, base_count = 1, base_labels = [0]\<rparr>"
  let ?t2a = "\<lambda>c :: u8. if c = 0 then 2 else c"
  have run: "classifyData ?env 1 ?t2a ?ps (\<lambda>ft. [1]) [] [\<lparr>asprs_code = 2, color = (10, 20, 30)\<rparr>]
        NoRegularization False True False [] = Some ?ps'"
    by (simp add: classify_simps)
  have hl: "hasLabels ?ps" by (simp add: hasLabels_def)
  have cl: "\<forall>i<pcount ?ps. unat (labels ?ps ! i) \<noteq> 1"
  proof (intro allI impI)
    fix i assume "i < pcount ?ps"
    then have "i = 0 \<or> i = 1" by auto
    then show "unat (labels ?ps ! i) \<noteq> 1" by auto
  qed
  from unclassifiedOnly_reverts [OF run hl cl] show ?thesis
    unfolding run by simp
qed

text \<open>
  Claim C9, as stated: with \<^verbatim>\<open>useColors = true\<close> the entry \<^verbatim>\<open>labels[i]\<close> is unchanged unless
  the surface had no labels. On a surface with labels, a point that is not updated (its
  class is skipped here) has its label reverted through \<^verbatim>\<open>train2asprsCodes\<close>: 0 becomes 2.
\<close>

theorem useColors_counterexample:
  "map_option labels
     (classifyData
        \<lparr>nb = 1, contains = (\<lambda>j i. True), knnSearch = (\<lambda>s. []), radiusSearch = (\<lambda>i. []),
         alphaExpansionGraphcut = (\<lambda>edges weights unary l. l),
         narrowing = Finite, float_log = ln, rounding = (\<lambda>x. x)\<rparr>
        1 (\<lambda>c. if c = 0 then 2 else c)
        \<lparr>pcount = 1, labels = [0], colors = [(0, 0, 0)], pointMap = [0], spacing = 1 / 2,
         base_count = 1, base_labels = []\<rparr>
        (\<lambda>ft. [1]) [] [\<lparr>asprs_code = 2, color = (10, 20, 30)\<rparr>]
        NoRegularization True False False [2])
   = Some [2]"
  by (simp add: classify_simps)

text \<open>
  Claim C9, amended: with \<^verbatim>\<open>useColors = true\<close>, \<^verbatim>\<open>classifyData\<close> never resizes \<^verbatim>\<open>labels[]\<close>
  (a surface without labels stays without). A surface point that is updated keeps its label
  and gets the colour of its inferred label; a point that is not updated (masked by
  \<^verbatim>\<open>unclassifiedOnly\<close> or by \<^verbatim>\<open>skip\<close>) keeps its colour and, when the surface has labels,
  has its label replaced by its entry in \<^verbatim>\<open>train2asprsCodes\<close>.
\<close>

theorem useColors_frame:
  assumes run: "classifyData env UNCLASSIFIED t2a ps evaluateFunc features lbls regularization
                  True unclassifiedOnly evaluate skip = Some ps'"
  shows "length (labels ps') = length (labels ps)
     \<and> (\<forall>i<pcount ps.
          if updated lbls unclassifiedOnly UNCLASSIFIED skip (base_labels ps') ps i then
            labels ps' ! i = labels ps ! i
            \<and> colors ps' ! i = color (bestLabel lbls (base_labels ps') ps i)
          else
            colors ps' ! i = colors ps ! i
            \<and> labels ps' ! i = (if hasLabels ps then t2a (labels ps ! i) else labels ps ! i))"
proof -
  have "True \<or> hasLabels ps" by simp
  note w = classifyData_writer [OF run this]
  then show ?thesis by simp
qed

theorem useColors_frame_witness:
  "map_option (\<lambda>p. (labels p, colors p))
     (classifyData
        \<lparr>nb = 1, contains = (\<lambda>j i. True), knnSearch = (\<lambda>s. []), radiusSearch = (\<lambda>i. []),
         alphaExpansionGraphcut = (\<lambda>edges weights unary l. l),
         narrowing = Finite, float_log = ln, rounding = (\<lambda>x. x)\<rparr>
        1 (\<lambda>c. if c = 0 then 2 else c)
        \<lparr>pcount = 2, labels = [0, 5], colors = [(0, 0, 0), (0, 0, 0)], pointMap = [0, 0],
         spacing = 1 / 2, base_count = 1, base_labels = []\<rparr>
        (\<lambda>ft. [1]) [] [\<lparr>asprs_code = 2, color = (10, 20, 30)\<rparr>]
        NoRegularization True False False [])
   = Some ([0, 5], [(10, 20, 30), (10, 20, 30)])"
proof -
  let ?env = "\<lparr>nb = 1, contains = (\<lambda>j i. True), knnSearch = (\<lambda>s. []), radiusSearch = (\<lambda>i. []),
         alphaExpansionGraphcut = (\<lambda>edges weights unary l. l),
         narrowing = Finite, float_log = ln, rounding = (\<lambda>x. x)\<rparr>"
  let ?ps = "\<lparr>pcount = 2, labels = [0, 5], colors = [(0, 0, 0), (0, 0, 0)], pointMap = [0, 0],
         spacing = 1 / 2, base_count = 1, base_labels = []\<rparr>"
  let ?ps' = "\<lparr>pcount = 2, labels = [0, 5], colors = [(10, 20, 30), (10, 20, 30)], pointMap = [0, 0],
         spacing = 1 / 2, base_count = 1, base_labels = [0]\<rparr>"
  let ?t2a = "\<lambda>c :: u8. if c = 0 then 2 else c"
  have run: "classifyData ?env 1 ?t2a ?ps (\<lambda>ft. [1]) [] [\<lparr>asprs_code = 2, color = (10, 20, 30)\<rparr>]
        NoRegularization True False False [] = Some ?ps'"
    by (simp add: classify_simps)
  from useColors_frame [OF run] show ?thesis
    unfolding run by simp
qed

subsection \<open>classifyData: no regularization\<close>

lemma writeLabels_base:
  assumes "writeLabels lbls useColors unclassifiedOnly evaluate UNCLASSIFIED t2a skip ps = Some ps'"
  shows "base_labels ps' = base_labels ps"
proof -
  define ps1 where "ps1 = (if \<not> useColors \<and> \<not> hasLabels ps
                 then ps\<lparr>labels := resize (labels ps) (pcount ps)\<rparr> else ps)"
  have "base_labels ps1 = base_labels ps" by (simp add: ps1_def)
  moreover from assms obtain skipMap where
    loop: "for_each [0..<pcount ps1]
        (write_step lbls useColors unclassifiedOnly evaluate UNCLASSIFIED t2a skipMap) ps1 = Some ps'"
    unfolding writeLabels_def Let_def ps1_def [symmetric]
    by (auto split: Option.bind_splits)
  moreover have "base_labels ps' = base_labels ps1"
  proof (rule for_each_invariant [where P = "\<lambda>t. base_labels t = base_labels ps1", OF loop])
    fix x t t'
    assume "base_labels t = base_labels ps1"
      and "write_step lbls useColors unclassifiedOnly evaluate UNCLASSIFIED t2a skipMap x t = Some t'"
    then show "base_labels t' = base_labels ps1"
      using write_step_cases [of lbls useColors unclassifiedOnly evaluate UNCLASSIFIED t2a skipMap x t t']
      by (auto split: if_splits)
  qed simp
  ultimately show ?thesis by simp
qed

text \<open>
  Claim C7. With \<^verbatim>\<open>regularization = None\<close>, a label set that is not empty and fits a byte,
  and probabilities that are not negative: for every base point \<open>i\<close> the label left in
  \<^verbatim>\<open>base.labels[i]\<close> is a class of highest probability in what \<^verbatim>\<open>evaluate\<close> returns on the
  features of \<open>i\<close>, and every class of a smaller index has a strictly smaller probability
  (among tied maxima the smallest index wins).
\<close>

theorem no_regularization_argmax:
  assumes run: "classifyData env UNCLASSIFIED t2a ps evaluateFunc features lbls NoRegularization
                  useColors unclassifiedOnly evaluate skip = Some ps'"
    and i: "i < base_count ps"
    and L: "lbls \<noteq> []" "length lbls \<le> 256"
    and nonneg: "\<forall>j<length lbls. 0 \<le> evaluateFunc (map (\<lambda>f. f i) features) ! j"
  shows "unat (base_labels ps' ! i) < length lbls
     \<and> (\<forall>j<length lbls. evaluateFunc (map (\<lambda>f. f i) features) ! j
            \<le> evaluateFunc (map (\<lambda>f. f i) features) ! unat (base_labels ps' ! i))
     \<and> (\<forall>j<unat (base_labels ps' ! i). evaluateFunc (map (\<lambda>f. f i) features) ! j
            < evaluateFunc (map (\<lambda>f. f i) features) ! unat (base_labels ps' ! i))"
proof -
  let ?probs = "evaluateFunc (map (\<lambda>f. f i) features)"
  let ?L = "length lbls"
  from run obtain bl where
    inf: "infer_none evaluateFunc features ?L (base_count ps)
           (resize (base_labels ps) (base_count ps)) = Some bl"
    and wr: "writeLabels lbls useColors unclassifiedOnly evaluate UNCLASSIFIED t2a skip
           (ps\<lparr>base_labels := bl\<rparr>) = Some ps'"
    by (auto simp: classifyData_def infer_def split: Option.bind_splits)
  from writeLabels_base [OF wr] have bl: "base_labels ps' = bl" by simp
  from infer_none_spec [OF inf] i obtain b v where
    fb: "findBest ?L ?probs = Some (b, v)" and lab: "bl ! i = of_nat b"
    by blast
  from findBest_spec [OF fb] have
    cases: "(v = 0 \<and> b = 0 \<and> (\<forall>j<?L. ?probs ! j \<le> 0))
       \<or> (b < ?L \<and> v = ?probs ! b \<and> 0 < v \<and> (\<forall>j<?L. ?probs ! j \<le> v) \<and> (\<forall>j<b. ?probs ! j < v))"
    by simp
  have pos: "0 < ?L" using L(1) by simp
  have b: "b < ?L \<and> (\<forall>j<?L. ?probs ! j \<le> ?probs ! b) \<and> (\<forall>j<b. ?probs ! j < ?probs ! b)"
    using cases
  proof
    assume a: "v = 0 \<and> b = 0 \<and> (\<forall>j<?L. ?probs ! j \<le> 0)"
    with nonneg pos have "?probs ! 0 = 0" by (metis order_antisym)
    with a pos show ?thesis by simp
  next
    assume "b < ?L \<and> v = ?probs ! b \<and> 0 < v \<and> (\<forall>j<?L. ?probs ! j \<le> v) \<and> (\<forall>j<b. ?probs ! j < v)"
    then show ?thesis by blast
  qed
  then have "b < 256" using L(2) by simp
  then have "unat (of_nat b :: u8) = b" by (simp add: unat_of_nat)
  with b show ?thesis unfolding bl lab by simp
qed

theorem no_regularization_argmax_witness:
  "map_option base_labels
     (classifyData
        \<lparr>nb = 1, contains = (\<lambda>j i. True), knnSearch = (\<lambda>s. []), radiusSearch = (\<lambda>i. []),
         alphaExpansionGraphcut = (\<lambda>edges weights unary l. l),
         narrowing = Finite, float_log = ln, rounding = (\<lambda>x. x)\<rparr>
        1 (\<lambda>c. c)
        \<lparr>pcount = 1, labels = [0], colors = [(0, 0, 0)], pointMap = [0], spacing = 1 / 2,
         base_count = 1, base_labels = []\<rparr>
        (\<lambda>ft. [0, 1 / 4, 1 / 2, 1 / 2]) []
        [\<lparr>asprs_code = 2, color = (10, 20, 30)\<rparr>, \<lparr>asprs_code = 3, color = (10, 20, 30)\<rparr>,
         \<lparr>asprs_code = 5, color = (10, 20, 30)\<rparr>, \<lparr>asprs_code = 6, color = (10, 20, 30)\<rparr>]
        NoRegularization False False False [])
   = Some [2]"
proof -
  let ?env = "\<lparr>nb = 1, contains = (\<lambda>j i. True), knnSearch = (\<lambda>s. []), radiusSearch = (\<lambda>i. []),
         alphaExpansionGraphcut = (\<lambda>edges weights unary l. l),
         narrowing = Finite, float_log = ln, rounding = (\<lambda>x. x)\<rparr>"
  let ?ps = "\<lparr>pcount = 1, labels = [0], colors = [(0, 0, 0)], pointMap = [0], spacing = 1 / 2,
         base_count = 1, base_labels = []\<rparr>"
  let ?ps' = "\<lparr>pcount = 1, labels = [5], colors = [(0, 0, 0)], pointMap = [0], spacing = 1 / 2,
         base_count = 1, base_labels = [2]\<rparr>"
  let ?lbls = "[\<lparr>asprs_code = 2, color = (10, 20, 30)\<rparr>, \<lparr>asprs_code = 3, color = (10, 20, 30)\<rparr>,
         \<lparr>asprs_code = 5, color = (10, 20, 30)\<rparr>, \<lparr>asprs_code = 6, color = (10, 20, 30)\<rparr>]"
  let ?ev = "\<lambda>ft :: real list. [0, 1 / 4, 1 / 2, 1 / 2 :: real]"
  have run: "classifyData ?env 1 (\<lambda>c. c) ?ps ?ev [] ?lbls NoRegularization False False False []
      = Some ?ps'"
    by (simp add: classify_simps)
  have i: "0 < base_count ?ps" by simp
  have L: "?lbls \<noteq> []" "length ?lbls \<le> 256" by simp_all
  have nonneg: "\<forall>j<length ?lbls. 0 \<le> ?ev (map (\<lambda>f. f 0) []) ! j"
    by (simp add: less_Suc_eq numeral_eq_Suc)
  from no_regularization_argmax [OF run i L nonneg] show ?thesis
    unfolding run by simp
qed

subsection \<open>classifyData: the Graph-Cut path\<close>

lemmas graph_simps = assignTiles_def assign_step_def firstTile_def tile_graph_def tile_point_step_def
  edge_step_def unary_step_def neighbors_def strength_def
  vget_def vset_def upt_conv_Cons replicate_numeral list_update_numeral Let_def

text \<open>
  What the edge test does on the pairs the assignment stores: the pair of point \<open>i\<close> is
  \<open>(i, tile of i)\<close>, so an edge is emitted exactly when the index of the neighbour equals the
  number \<open>sub\<close> of the tile and \<open>j\<close> differs from the tile of the neighbour, and its second
  vertex is that tile.
\<close>

lemma assignTiles_inputToIndices:
  assumes run: "assignTiles n_tiles inside n = Some (indices, inputToIndices)"
  shows "length inputToIndices = n
     \<and> (\<forall>i<n. inputToIndices ! i = (i, firstTile n_tiles inside i))"
proof -
  let ?P = "\<lambda>k st. length (snd st) = n \<and> (\<forall>i<k. snd st ! i = (i, firstTile n_tiles inside i))"
  have "?P n (indices, inputToIndices)"
  proof (rule for_each_upt_induct [where P = ?P, OF run [unfolded assignTiles_def]])
    show "?P 0 (replicate n_tiles [], replicate n (0, 0))" by simp
  next
    fix i t t'
    assume P: "?P i t" and step: "assign_step n_tiles inside i t = Some t'"
    from step have "i < length (snd t)"
      and "snd t' = (snd t)[i := (i, firstTile n_tiles inside i)]"
      by (auto simp: assign_step_def vget_def vset_def Let_def
          split: prod.splits Option.bind_splits if_splits)
    with P show "?P (Suc i) t'"
      by (auto simp: less_Suc_eq nth_list_update)
  qed simp
  then show ?thesis by simp
qed

lemma edge_step_by_point_index:
  assumes "neighbor < length inputToIndices"
    and "inputToIndices ! neighbor = (neighbor, t)"
  shows "edge_step sub j inputToIndices neighbor (edges, edgeWeights)
       = Some (if sub = neighbor \<and> j \<noteq> t
               then (edges @ [(j, t)], edgeWeights @ [strength])
               else (edges, edgeWeights))"
  using assms by (simp add: edge_step_def vget_def)

text \<open>
  Claim C1. The claim: for a neighbour returned by the k-NN query of tile point \<open>j\<close>, the
  edge \<open>(j, position of the neighbour within the tile)\<close> is emitted if and only if the
  neighbour belongs to the same tile and its position differs from \<open>j\<close>; no edge joins two
  tiles. The source fills \<^verbatim>\<open>inputToIndices[i]\<close> with \<open>(i, idx)\<close>, the index of the point and
  the index of its tile, and then tests \<^verbatim>\<open>sub == inputToIndices[neighbor].first\<close> and
  \<^verbatim>\<open>j != inputToIndices[neighbor].second\<close>. Below are the four base points \<open>(0, 0)\<close>,
  \<open>(0.5, 0.1)\<close>, \<open>(0.1, 0.4)\<close>, \<open>(0.15, 0.5)\<close>: the bounding box is a square, cut into 3 by 2
  tiles; point 0 lies in tile 0, point 1 in tile 4, points 2 and 3 in tile 1; a query for 12
  neighbours returns all four points, nearest first. For tile 1 the claim gives the edges
  \<open>(0, 1)\<close> and \<open>(1, 0)\<close>; the code emits \<open>(0, 4)\<close> and \<open>(1, 4)\<close>, both for the neighbour that
  is point 1, of another tile, with the index of that tile as the second vertex.
\<close>

theorem graphcut_edges_by_point_index:
  "assignTiles 6
     (\<lambda>j i. (i = 0 \<and> j = 0) \<or> (i = 1 \<and> j = 4) \<or> ((i = 2 \<or> i = 3) \<and> j = 1)) 4
     = Some ([[0], [2, 3], [], [], [1], []], [(0, 0), (1, 4), (2, 1), (3, 1)])
   \<and> tile_graph Finite ln (\<lambda>s. if s = 2 then [2, 3, 0, 1] else [3, 2, 0, 1]) (\<lambda>ft. [1]) [] 1
       1 [2, 3] [(0, 0), (1, 4), (2, 1), (3, 1)]
     = Some ([(0, 4), (1, 4)], [2 / 10, 2 / 10], [[Finite 0, Finite 0]], [0, 0])"
  by (simp add: graph_simps)

text \<open>
  Claim C8, as stated: in the Graph-Cut path a probability of exactly 0 does not give an
  infinite unary cost, a tiny \<open>\<epsilon>\<close> being substituted before \<^verbatim>\<open>-log\<close>. The source computes
  \<^verbatim>\<open>-std::log(value)\<close> on the value as it is: for the probabilities \<open>(0, 1)\<close> (of type
  \<^verbatim>\<open>float\<close>, so that nothing is lost in narrowing) the cost of class 0 is \<open>+\<infinity>\<close>.
\<close>

theorem graphcut_zero_probability_counterexample:
  "tile_graph Finite ln (\<lambda>s. [0]) (\<lambda>ft. [0, 1]) [] 2 0 [0] [(0, 0)]
     = Some ([], [], [[PlusInfinity], [Finite 0]], [1])"
  by (simp add: graph_simps)

lemma float_less_trans: "float_less a b \<Longrightarrow> float_less b c \<Longrightarrow> float_less a c"
  by (cases a; cases b; cases c) auto

lemma float_less_irrefl: "\<not> float_less a a"
  by (cases a) auto

lemma unary_step_cases:
  assumes "unary_step to_float flog values j k (pm, b, v) = Some (pm', b', v')"
  shows "k < length values \<and> k < length pm \<and> j < length (pm ! k)
     \<and> pm' = pm[k := (pm ! k)[j := neg_log flog (to_float (values ! k))]]
     \<and> (b', v') = (if float_less v (to_float (values ! k)) then (k, to_float (values ! k))
                   else (b, v))"
  using assms
  by (auto simp: unary_step_def vget_def vset_def Let_def split: Option.bind_splits if_splits)

lemma unary_loop_spec:
  assumes loop: "for_each [0..<L] (unary_step to_float flog values j) (pm, 0, Finite 0)
                   = Some (pm', b, v)"
  shows "length pm' = length pm \<and> (\<forall>k. length (pm' ! k) = length (pm ! k))
     \<and> (\<forall>k<L. pm' ! k ! j = neg_log flog (to_float (values ! k)))
     \<and> (\<forall>k j'. j' \<noteq> j \<longrightarrow> pm' ! k ! j' = pm ! k ! j')
     \<and> (\<forall>x<L. \<not> float_less v (to_float (values ! x)))
     \<and> ((v = Finite 0 \<and> b = 0) \<or> (b < L \<and> v = to_float (values ! b) \<and> float_less (Finite 0) v))"
proof -
  let ?P = "\<lambda>n st. case st of (q, b, v) \<Rightarrow>
       length q = length pm \<and> (\<forall>k. length (q ! k) = length (pm ! k))
     \<and> (\<forall>k<n. q ! k ! j = neg_log flog (to_float (values ! k)))
     \<and> (\<forall>k j'. j' \<noteq> j \<longrightarrow> q ! k ! j' = pm ! k ! j')
     \<and> (\<forall>x<n. \<not> float_less v (to_float (values ! x)))
     \<and> ((v = Finite 0 \<and> b = 0) \<or> (b < n \<and> v = to_float (values ! b) \<and> float_less (Finite 0) v))"
  have "?P L (pm', b, v)"
  proof (rule for_each_upt_induct [where P = ?P, OF loop])
    show "?P 0 (pm, 0, Finite 0)" by simp
  next
    fix k t t'
    assume P: "?P k t" and step: "unary_step to_float flog values j k t = Some t'"
    obtain q b v where t: "t = (q, b, v)" by (cases t)
    obtain q' b' v' where t': "t' = (q', b', v')" by (cases t')
    let ?w = "to_float (values ! k)"
    from unary_step_cases [OF step [unfolded t t']] have
      k: "k < length values" "k < length q" "j < length (q ! k)"
      and q': "q' = q[k := (q ! k)[j := neg_log flog ?w]]"
      and bv: "(b', v') = (if float_less v ?w then (k, ?w) else (b, v))"
      by simp_all
    from P t have len: "length q = length pm" "\<forall>k. length (q ! k) = length (pm ! k)"
      and prior: "\<forall>x<k. q ! x ! j = neg_log flog (to_float (values ! x))"
      and other: "\<forall>x j'. j' \<noteq> j \<longrightarrow> q ! x ! j' = pm ! x ! j'"
      and top: "\<forall>x<k. \<not> float_less v (to_float (values ! x))"
      and best: "(v = Finite 0 \<and> b = 0) \<or> (b < k \<and> v = to_float (values ! b) \<and> float_less (Finite 0) v)"
      by auto
    have 1: "length q' = length pm" using len q' by simp
    have 2: "\<forall>x. length (q' ! x) = length (pm ! x)"
      using len k by (auto simp: q' nth_list_update)
    have 3: "\<forall>x<Suc k. q' ! x ! j = neg_log flog (to_float (values ! x))"
      using prior k by (auto simp: q' nth_list_update less_Suc_eq)
    have 4: "\<forall>x j'. j' \<noteq> j \<longrightarrow> q' ! x ! j' = pm ! x ! j'"
      using other k by (auto simp: q' nth_list_update)
    have 5: "\<forall>x<Suc k. \<not> float_less v' (to_float (values ! x))"
    proof (cases "float_less v ?w")
      case True
      with bv have v': "v' = ?w" by simp
      have "\<not> float_less ?w (to_float (values ! x))" if "x < k" for x
        using top that True float_less_trans by blast
      then show ?thesis
        unfolding v' by (auto simp: less_Suc_eq float_less_irrefl)
    next
      case False
      with bv have "v' = v" by simp
      with top False show ?thesis by (auto simp: less_Suc_eq)
    qed
    have 6: "(v' = Finite 0 \<and> b' = 0)
        \<or> (b' < Suc k \<and> v' = to_float (values ! b') \<and> float_less (Finite 0) v')"
    proof (cases "float_less v ?w")
      case True
      with bv have e: "b' = k" "v' = ?w" by simp_all
      from best True have "float_less (Finite 0) ?w"
        using float_less_trans by blast
      with e show ?thesis by simp
    next
      case False
      with bv have "b' = b" "v' = v" by simp_all
      with best show ?thesis by auto
    qed
    show "?P (Suc k) t'"
      unfolding t' using 1 2 3 4 5 6 by simp
  qed simp
  then show ?thesis by simp
qed

lemma tile_point_step_cases:
  assumes "tile_point_step to_float flog knn evaluateFunc features L sub tile inputToIndices j
             (edges, ew, pm, al) = Some (edges', ew', pm', al')"
  shows "j < length tile \<and> j < length al
     \<and> (\<exists>b v. for_each [0..<L]
                 (unary_step to_float flog (evaluateFunc (map (\<lambda>f. f (tile ! j)) features)) j)
                 (pm, 0, Finite 0) = Some (pm', b, v)
              \<and> al' = al[j := b])"
  using assms
  by (auto simp: tile_point_step_def vget_def vset_def Let_def split: Option.bind_splits if_splits)

lemma tile_graph_spec:
  assumes run: "tile_graph to_float flog knn evaluateFunc features L sub tile inputToIndices
                  = Some (edges, ew, pm, al)"
    and j: "j < length tile"
  shows "(\<forall>k<L. pm ! k ! j
            = neg_log flog (to_float (evaluateFunc (map (\<lambda>f. f (tile ! j)) features) ! k)))
     \<and> ((al ! j = 0
          \<and> (\<forall>x<L. \<not> float_less (Finite 0)
                      (to_float (evaluateFunc (map (\<lambda>f. f (tile ! j)) features) ! x))))
        \<or> (al ! j < L
            \<and> float_less (Finite 0)
                 (to_float (evaluateFunc (map (\<lambda>f. f (tile ! j)) features) ! (al ! j)))))"
proof -
  let ?vals = "\<lambda>j. evaluateFunc (map (\<lambda>f. f (tile ! j)) features)"
  let ?ok = "\<lambda>q a j. (\<forall>k<L. q ! k ! j = neg_log flog (to_float (?vals j ! k)))
     \<and> ((a ! j = 0 \<and> (\<forall>x<L. \<not> float_less (Finite 0) (to_float (?vals j ! x))))
        \<or> (a ! j < L \<and> float_less (Finite 0) (to_float (?vals j ! (a ! j)))))"
  let ?P = "\<lambda>n st. case st of (e, w, q, a) \<Rightarrow>
       length a = length tile \<and> (\<forall>i<n. ?ok q a i)"
  have "?P (length tile) (edges, ew, pm, al)"
  proof (rule for_each_upt_induct [where P = ?P, OF run [unfolded tile_graph_def]])
    show "?P 0 ([], [], replicate L (replicate (length tile) (Finite 0)), replicate (length tile) 0)"
      by simp
  next
    fix n t t'
    assume P: "?P n t" and n: "n < length tile"
      and step: "tile_point_step to_float flog knn evaluateFunc features L sub tile inputToIndices
                   n t = Some t'"
    obtain e w q a where t: "t = (e, w, q, a)" by (cases t)
    obtain e' w' q' a' where t': "t' = (e', w', q', a')" by (cases t')
    from tile_point_step_cases [OF step [unfolded t t']] obtain b v where
      na: "n < length a"
      and u: "for_each [0..<L] (unary_step to_float flog (?vals n) n) (q, 0, Finite 0)
                = Some (q', b, v)"
      and a': "a' = a[n := b]"
      by blast
    note us = unary_loop_spec [OF u]
    from P t have la: "length a = length tile" and old: "\<forall>i<n. ?ok q a i" by auto
    have costs: "\<forall>k<L. q' ! k ! n = neg_log flog (to_float (?vals n ! k))"
      using us by blast
    have label: "(b = 0 \<and> (\<forall>x<L. \<not> float_less (Finite 0) (to_float (?vals n ! x))))
        \<or> (b < L \<and> float_less (Finite 0) (to_float (?vals n ! b)))"
    proof -
      from us have top: "\<forall>x<L. \<not> float_less v (to_float (?vals n ! x))"
        and best: "(v = Finite 0 \<and> b = 0)
          \<or> (b < L \<and> v = to_float (?vals n ! b) \<and> float_less (Finite 0) v)"
        by blast+
      from best show ?thesis
      proof
        assume "v = Finite 0 \<and> b = 0"
        with top show ?thesis by simp
      next
        assume "b < L \<and> v = to_float (?vals n ! b) \<and> float_less (Finite 0) v"
        then show ?thesis by blast
      qed
    qed
    have new: "?ok q' a' n"
      using costs label na by (simp add: a')
    have keep: "?ok q' a' i" if "i < n" for i
    proof -
      from that have ne: "i \<noteq> n" by simp
      with us have "\<forall>k. q' ! k ! i = q ! k ! i" by blast
      moreover have "a' ! i = a ! i" using ne by (simp add: a')
      ultimately show ?thesis using old that by simp
    qed
    have "\<forall>i<Suc n. ?ok q' a' i"
      using new keep by (auto simp: less_Suc_eq)
    then show "?P (Suc n) t'"
      unfolding t' using la by (simp add: a')
  qed simp
  with j show ?thesis by simp
qed

text \<open>
  Claim C8, amended: in the Graph-Cut path, for every tile point whose evaluated probability
  for some class is exactly 0 (which line 333 narrows to the \<^verbatim>\<open>float\<close> 0), the unary cost of
  that class is \<^verbatim>\<open>-log(0)\<close>, that is \<open>+\<infinity>\<close> (nothing is substituted); and such a class is the
  initial label of the point only as the default class 0, when no class has a probability
  that is positive once narrowed to \<^verbatim>\<open>float\<close>.
\<close>

theorem graphcut_zero_probability_unary:
  assumes run: "tile_graph to_float flog knn evaluateFunc features L sub tile inputToIndices
                  = Some (edges, ew, pm, al)"
    and j: "j < length tile" and k: "k < L"
    and zero: "evaluateFunc (map (\<lambda>f. f (tile ! j)) features) ! k = 0"
    and narrow: "to_float 0 = Finite 0"
  shows "pm ! k ! j = PlusInfinity
     \<and> (al ! j = k \<longrightarrow>
          k = 0 \<and> (\<forall>x<L. \<not> float_less (Finite 0)
                          (to_float (evaluateFunc (map (\<lambda>f. f (tile ! j)) features) ! x))))"
proof -
  note s = tile_graph_spec [OF run j]
  from s k have "pm ! k ! j
      = neg_log flog (to_float (evaluateFunc (map (\<lambda>f. f (tile ! j)) features) ! k))"
    by blast
  then have 1: "pm ! k ! j = PlusInfinity" by (simp add: zero narrow)
  have 2: "k = 0 \<and> (\<forall>x<L. \<not> float_less (Finite 0)
                          (to_float (evaluateFunc (map (\<lambda>f. f (tile ! j)) features) ! x)))"
    if "al ! j = k"
  proof -
    have "\<not> float_less (Finite 0)
             (to_float (evaluateFunc (map (\<lambda>f. f (tile ! j)) features) ! (al ! j)))"
      unfolding that by (simp add: zero narrow)
    with s that show ?thesis by blast
  qed
  from 1 2 show ?thesis by blast
qed

theorem graphcut_zero_probability_unary_witness:
  "tile_graph Finite ln (\<lambda>s. [0]) (\<lambda>ft. [0, 1]) [] 2 0 [0] [(0, 0)]
     = Some ([], [], [[PlusInfinity], [Finite 0]], [1])
   \<and> [[PlusInfinity], [Finite 0]] ! 0 ! 0 = PlusInfinity"
proof -
  have run: "tile_graph Finite ln (\<lambda>s. [0]) (\<lambda>ft. [0, 1]) [] 2 0 [0] [(0, 0)]
     = Some ([], [], [[PlusInfinity], [Finite 0]], [1])"
    by (simp add: graph_simps)
  have j: "(0::nat) < length [0::nat]" by simp
  have k: "(0::nat) < 2" by simp
  have zero: "(\<lambda>ft. [0, 1 :: real]) (map (\<lambda>f. f ([0::nat] ! 0)) []) ! 0 = 0" by simp
  have narrow: "Finite 0 = Finite 0" by simp
  from graphcut_zero_probability_unary [OF run j k zero narrow] run show ?thesis by simp
qed

subsection \<open>NodeGini: the best threshold\<close>











end
